theory Spec2Isabelle
  imports Main "HOL-Library.AList" "HOL-Library.Multiset" "HOL-Library.Signed_Division"
begin

section \<open>Data model (entity/storage.go, logic/fulfilment.go, config)\<close>

text \<open>
  Conventions of the embedding.
  \<^item> \<open>time.Duration\<close> is an \<open>int64\<close> count of nanoseconds. It is modelled as \<open>int\<close>, with the
    64-bit arithmetic written out: the subtraction, multiplication and division of durations
    wrap around (\<open>dsub\<close>, \<open>dmul\<close>, \<open>ddiv\<close>), and \<open>time.Since\<close> saturates at the least and the
    greatest duration (\<open>Since\<close>). The duration fields of an order hold \<open>int64\<close> values.
  \<^item> An instant (\<open>time.Time\<close>) is modelled as the \<open>int\<close> number of nanoseconds since the Unix
    epoch; the clock readings are instants whose \<open>UnixMicro\<close> is representable.
  \<^item> Every engine operation takes the clock reading \<open>now\<close> as a parameter; all the
    \<open>time.Now()\<close> and \<open>time.Since\<close> reads inside one call see that same instant.
  \<^item> \<open>Storage.Orders\<close> is a Go map from order id to a pointer to a StoredOrder. It is
    modelled as an association list: a new key is appended, an existing key is overwritten
    in place, and \<open>len\<close> is the length of the list.
  \<^item> Go leaves the order in which a map is iterated unspecified, and two iterations of one
    map can differ. The functions that iterate over the stored orders
    (\<open>GetLeastFreshOrder\<close>, \<open>tryMoveFromShelfGroup\<close>, and \<open>discardOrderFromShelfGroup\<close> which
    calls both) are therefore defined on the sequence of orders visited, given as a
    parameter (\<open>GetLeastFreshOrder_listed\<close>, \<open>tryMoveFromShelfGroup_listed\<close>,
    \<open>discardOrderFromShelfGroup_listed\<close>); under the source's names they visit the orders in
    the order of the association list.
  \<^item> A StoredOrder pointer lives in one map entry only, so the writes that
    \<open>atomicMoveOrder\<close> does through the pointer are modelled as an update of that entry. The
    fields read later through snapshot pointers (\<open>ID\<close>, \<open>Temperature\<close>) are never written.
  \<^item> Locks are not modelled: the embedding is the sequential behaviour of the code.
\<close>

type_synonym Duration = int
type_synonym Time = int

text \<open>
  The arithmetic of \<open>int64\<close>: \<open>wrap64\<close> is the value an operation leaves after wrap-around,
  \<open>sat64\<close> the clamping that \<open>Time.Sub\<close> does; the bounds are \<open>-2^63\<close> and \<open>2^63 - 1\<close>, and
  \<open>2^64 = 18446744073709551616\<close>.
\<close>

definition int64 :: "int \<Rightarrow> bool" where
  "int64 x = (- 9223372036854775808 \<le> x \<and> x \<le> 9223372036854775807)"

definition wrap64 :: "int \<Rightarrow> int" where
  "wrap64 x = (x + 9223372036854775808) mod 18446744073709551616 - 9223372036854775808"

definition sat64 :: "int \<Rightarrow> int" where
  "sat64 x = (if x < - 9223372036854775808 then - 9223372036854775808
              else if 9223372036854775807 < x then 9223372036854775807
              else x)"

definition dsub :: "Duration \<Rightarrow> Duration \<Rightarrow> Duration" where
  "dsub a b = wrap64 (a - b)"

definition dmul :: "Duration \<Rightarrow> Duration \<Rightarrow> Duration" where
  "dmul a b = wrap64 (a * b)"

definition ddiv :: "Duration \<Rightarrow> Duration \<Rightarrow> Duration" where
  "ddiv a b = wrap64 (a sdiv b)"

text \<open>\<open>time.Since(t)\<close> read at the instant \<open>now\<close>: \<open>now.Sub(t)\<close>, which saturates.\<close>

definition Since :: "Time \<Rightarrow> Time \<Rightarrow> Duration" where
  "Since now t = sat64 (now - t)"

definition TEMP_TYPE_HOT :: string where "TEMP_TYPE_HOT = ''hot''"
definition TEMP_TYPE_COLD :: string where "TEMP_TYPE_COLD = ''cold''"
definition TEMP_TYPE_ROOM :: string where "TEMP_TYPE_ROOM = ''room''"

definition ACTION_TYPE_PLACE :: string where "ACTION_TYPE_PLACE = ''place''"
definition ACTION_TYPE_MOVE :: string where "ACTION_TYPE_MOVE = ''move''"
definition ACTION_TYPE_PICKUP :: string where "ACTION_TYPE_PICKUP = ''pickup''"
definition ACTION_TYPE_DISCARD :: string where "ACTION_TYPE_DISCARD = ''discard''"

record Order =
  ID :: string
  Name :: string
  Temperature :: string
  Freshness :: Duration
  InitialFreshness :: Duration

record StoredOrder =
  Order :: Order
  PlacedAt :: Time

record Storage =
  Name :: string
  Capacity :: int
  Orders :: "(string \<times> StoredOrder) list"

type_synonym StorageGroup = "Storage list"

record Action =
  Timestamp :: int
  OrderID :: string
  Action :: string

record FulfillmentConfig =
  NumCoolers :: int
  CoolerCap :: int
  NumHeaters :: int
  HeaterCap :: int
  NumShelves :: int
  ShelfCap :: int

record FulfillmentSystem =
  CoolerGroup :: StorageGroup
  HeaterGroup :: StorageGroup
  ShelfGroup :: StorageGroup
  Actions :: "Action list"

section \<open>Storage (one unit)\<close>

definition NewStorage :: "string \<Rightarrow> int \<Rightarrow> Storage" where
  "NewStorage name capacity = \<lparr>Name = name, Capacity = capacity, Orders = []\<rparr>"

definition GetOrder :: "Storage \<Rightarrow> string \<Rightarrow> StoredOrder option" where
  "GetOrder s orderID = map_of (Orders s) orderID"

definition len :: "Storage \<Rightarrow> int" where
  "len s = int (length (Orders s))"

text \<open>\<open>Storage.Add\<close>: overwrite an existing id, else insert when there is room.\<close>

definition Storage_Add :: "Storage \<Rightarrow> StoredOrder \<Rightarrow> Storage \<times> bool" where
  "Storage_Add s order =
     (if map_of (Orders s) (ID (Order order)) \<noteq> None
      then (s\<lparr>Orders := AList.update (ID (Order order)) order (Orders s)\<rparr>, True)
      else if len s < Capacity s
      then (s\<lparr>Orders := AList.update (ID (Order order)) order (Orders s)\<rparr>, True)
      else (s, False))"

definition Storage_Remove :: "Storage \<Rightarrow> string \<Rightarrow> Storage \<times> StoredOrder option" where
  "Storage_Remove s orderID =
     (case map_of (Orders s) orderID of
        None \<Rightarrow> (s, None)
      | Some so \<Rightarrow> (s\<lparr>Orders := AList.delete orderID (Orders s)\<rparr>, Some so))"

definition Storage_IsFull :: "Storage \<Rightarrow> bool" where
  "Storage_IsFull s = (len s \<ge> Capacity s)"

definition Storage_ListOrders :: "Storage \<Rightarrow> StoredOrder list" where
  "Storage_ListOrders s = map snd (Orders s)"

section \<open>StorageGroup\<close>

fun Group_Add :: "StorageGroup \<Rightarrow> StoredOrder \<Rightarrow> StorageGroup \<times> bool" where
  "Group_Add [] order = ([], False)"
| "Group_Add (storage # rest) order =
     (if \<not> Storage_IsFull storage
      then (case Storage_Add storage order of
              (storage', True) \<Rightarrow> (storage' # rest, True)
            | (storage', False) \<Rightarrow>
                (case Group_Add rest order of (rest', ok) \<Rightarrow> (storage' # rest', ok)))
      else (case Group_Add rest order of (rest', ok) \<Rightarrow> (storage # rest', ok)))"

fun Group_Remove :: "StorageGroup \<Rightarrow> string \<Rightarrow> StorageGroup \<times> StoredOrder option" where
  "Group_Remove [] orderID = ([], None)"
| "Group_Remove (storage # rest) orderID =
     (case Storage_Remove storage orderID of
        (storage', Some removedOrder) \<Rightarrow> (storage' # rest, Some removedOrder)
      | (storage', None) \<Rightarrow>
          (case Group_Remove rest orderID of (rest', r) \<Rightarrow> (storage' # rest', r)))"

text \<open>
  \<open>RemainingFreshness\<close>, in \<open>int64\<close> arithmetic; Go's integer division truncates towards
  zero, which is \<open>sdiv\<close>.
\<close>

definition RemainingFreshness :: "Time \<Rightarrow> StoredOrder \<Rightarrow> Duration" where
  "RemainingFreshness now so =
     (let elapsed = Since now (PlacedAt so) in
      if Temperature (Order so) = TEMP_TYPE_ROOM
      then dsub (Freshness (Order so)) elapsed
      else dsub (ddiv (Freshness (Order so)) 2) elapsed)"

definition Group_ListOrders :: "StorageGroup \<Rightarrow> StoredOrder list" where
  "Group_ListOrders sg = concat (map Storage_ListOrders sg)"

text \<open>
  \<open>GetLeastFreshOrder\<close>: the two nested loops visit the orders of the units in sequence;
  the pair \<open>(leastFreshOrder, found)\<close> is the accumulator, \<open>None\<close> while \<open>found\<close> is false.
  \<open>GetLeastFreshOrder_listed\<close> is the scan on the sequence \<open>listing\<close> of the orders visited.
\<close>

definition leastFresh_step :: "Time \<Rightarrow> StoredOrder option \<Rightarrow> StoredOrder \<Rightarrow> StoredOrder option" where
  "leastFresh_step now acc order =
     (case acc of
        None \<Rightarrow> Some order
      | Some leastFreshOrder \<Rightarrow>
          if RemainingFreshness now order < RemainingFreshness now leastFreshOrder
          then Some order else Some leastFreshOrder)"

definition GetLeastFreshOrder_listed :: "Time \<Rightarrow> StoredOrder list \<Rightarrow> StoredOrder option" where
  "GetLeastFreshOrder_listed now listing = foldl (leastFresh_step now) None listing"

definition GetLeastFreshOrder :: "Time \<Rightarrow> StorageGroup \<Rightarrow> StoredOrder option" where
  "GetLeastFreshOrder now sg = GetLeastFreshOrder_listed now (Group_ListOrders sg)"

fun Group_IsFull :: "StorageGroup \<Rightarrow> bool" where
  "Group_IsFull [] = True"
| "Group_IsFull (storage # rest) = (if \<not> Storage_IsFull storage then False else Group_IsFull rest)"

section \<open>FulfillmentSystem\<close>

text \<open>The unit names, \<open>fmt.Sprintf("Cooler-%d", i)\<close>: decimal digits of a number.\<close>

definition digit_char :: "nat \<Rightarrow> char" where
  "digit_char n = ''0123456789'' ! n"

fun decimal :: "nat \<Rightarrow> string" where
  "decimal n = (if n < 10 then [digit_char n] else decimal (n div 10) @ [digit_char (n mod 10)])"

declare decimal.simps [simp del]

definition NewFulfillmentSystem :: "FulfillmentConfig \<Rightarrow> FulfillmentSystem" where
  "NewFulfillmentSystem cfg =
     \<lparr>CoolerGroup = map (\<lambda>i. NewStorage (''Cooler-'' @ decimal (nat i)) (CoolerCap cfg)) [1..NumCoolers cfg],
      HeaterGroup = map (\<lambda>i. NewStorage (''Heater-'' @ decimal (nat i)) (HeaterCap cfg)) [1..NumHeaters cfg],
      ShelfGroup = map (\<lambda>i. NewStorage (''Shelf-'' @ decimal (nat i)) (ShelfCap cfg)) [1..NumShelves cfg],
      Actions = []\<rparr>"

text \<open>\<open>logAction\<close>: \<open>UnixMicro\<close> of an instant in nanoseconds.\<close>

definition logAction :: "FulfillmentSystem \<Rightarrow> string \<Rightarrow> string \<Rightarrow> Time \<Rightarrow> FulfillmentSystem" where
  "logAction fs orderID actionType executeTime =
     fs\<lparr>Actions := Actions fs @ [\<lparr>Timestamp = executeTime div 1000, OrderID = orderID, Action = actionType\<rparr>]\<rparr>"

text \<open>
  \<open>atomicMoveOrder\<close>. The source unit and the destination group are distinct objects at
  every call site (a shelf unit, and the heater or cooler group), so the function takes
  both and returns both. \<open>atomicMove_scan\<close> is the loop over the destination units.
\<close>

fun atomicMove_scan :: "string \<Rightarrow> StoredOrder \<Rightarrow> Storage \<Rightarrow> StorageGroup \<Rightarrow> bool \<times> Storage \<times> StorageGroup" where
  "atomicMove_scan orderID order source [] = (False, source, [])"
| "atomicMove_scan orderID order source (destStorage # rest) =
     (if len destStorage < Capacity destStorage
      then (True,
            source\<lparr>Orders := AList.delete orderID (Orders source)\<rparr>,
            destStorage\<lparr>Orders := AList.update orderID order (Orders destStorage)\<rparr> # rest)
      else (case atomicMove_scan orderID order source rest of
              (moved, source', rest') \<Rightarrow> (moved, source', destStorage # rest')))"

definition atomicMoveOrder :: "Time \<Rightarrow> string \<Rightarrow> Storage \<Rightarrow> StorageGroup \<Rightarrow> bool \<times> Storage \<times> StorageGroup" where
  "atomicMoveOrder now orderID source destination =
     (case map_of (Orders source) orderID of
        None \<Rightarrow> (False, source, destination)
      | Some order \<Rightarrow>
          if Temperature (Order order) \<noteq> TEMP_TYPE_ROOM
          then (let t = Since now (PlacedAt order);
                    newRemaining = dsub (InitialFreshness (Order order)) (dmul 2 t)
                in if newRemaining \<le> 0 then (False, source, destination)
                   else (let order' = order\<lparr>PlacedAt := now,
                                             Order := (Order order)\<lparr>Freshness := newRemaining\<rparr>\<rparr>;
                             source' = source\<lparr>Orders := AList.update orderID order' (Orders source)\<rparr>
                         in atomicMove_scan orderID order' source' destination))
          else atomicMove_scan orderID order source destination)"

text \<open>
  The loop \<open>for _, shelf := range fs.ShelfGroup.Storages\<close> around \<open>atomicMoveOrder\<close>, which
  stops at the first shelf unit the order could be moved from. A failed attempt can still
  have written to the order, so the units visited are returned as they are left.
\<close>

fun moveFromShelves :: "Time \<Rightarrow> string \<Rightarrow> StorageGroup \<Rightarrow> StorageGroup \<Rightarrow> bool \<times> StorageGroup \<times> StorageGroup" where
  "moveFromShelves now orderID [] dest = (False, [], dest)"
| "moveFromShelves now orderID (shelf # rest) dest =
     (case atomicMoveOrder now orderID shelf dest of
        (moved, shelf', dest') \<Rightarrow>
          if moved then (True, shelf' # rest, dest')
          else (case moveFromShelves now orderID rest dest' of
                  (moved', rest', dest'') \<Rightarrow> (moved', shelf' # rest', dest'')))"

text \<open>
  The loop of \<open>tryMoveFromShelfGroup\<close> over the snapshot \<open>orders\<close>; it returns the id of the
  order that was moved, if any.
\<close>

fun tryMove_loop :: "Time \<Rightarrow> string \<Rightarrow> StoredOrder list \<Rightarrow> StorageGroup \<Rightarrow> StorageGroup
    \<Rightarrow> string option \<times> StorageGroup \<times> StorageGroup" where
  "tryMove_loop now temp [] shelves ideal = (None, shelves, ideal)"
| "tryMove_loop now temp (so # orders) shelves ideal =
     (if Temperature (Order so) = temp
      then (case moveFromShelves now (ID (Order so)) shelves ideal of
              (moved, shelves', ideal') \<Rightarrow>
                if moved then (Some (ID (Order so)), shelves', ideal')
                else tryMove_loop now temp orders shelves' ideal')
      else tryMove_loop now temp orders shelves ideal)"

text \<open>
  \<open>tryMoveFromShelfGroup\<close>; \<open>orders\<close> is the snapshot that \<open>fs.ShelfGroup.ListOrders()\<close>
  returns, in the order in which the maps were iterated.
\<close>

definition tryMoveFromShelfGroup_listed :: "Time \<Rightarrow> string \<Rightarrow> StoredOrder list \<Rightarrow> FulfillmentSystem
    \<Rightarrow> bool \<times> FulfillmentSystem" where
  "tryMoveFromShelfGroup_listed now temp orders fs =
     (if temp = TEMP_TYPE_HOT
      then (case tryMove_loop now temp orders (ShelfGroup fs) (HeaterGroup fs) of
              (Some i, shelves', ideal') \<Rightarrow>
                (True, logAction (fs\<lparr>ShelfGroup := shelves', HeaterGroup := ideal'\<rparr>) i ACTION_TYPE_MOVE now)
            | (None, shelves', ideal') \<Rightarrow>
                (False, fs\<lparr>ShelfGroup := shelves', HeaterGroup := ideal'\<rparr>))
      else if temp = TEMP_TYPE_COLD
      then (case tryMove_loop now temp orders (ShelfGroup fs) (CoolerGroup fs) of
              (Some i, shelves', ideal') \<Rightarrow>
                (True, logAction (fs\<lparr>ShelfGroup := shelves', CoolerGroup := ideal'\<rparr>) i ACTION_TYPE_MOVE now)
            | (None, shelves', ideal') \<Rightarrow>
                (False, fs\<lparr>ShelfGroup := shelves', CoolerGroup := ideal'\<rparr>))
      else (False, fs))"

definition tryMoveFromShelfGroup :: "Time \<Rightarrow> string \<Rightarrow> FulfillmentSystem \<Rightarrow> bool \<times> FulfillmentSystem" where
  "tryMoveFromShelfGroup now temp fs =
     tryMoveFromShelfGroup_listed now temp (Group_ListOrders (ShelfGroup fs)) fs"

text \<open>
  \<open>discardOrderFromShelfGroup\<close>; \<open>scan\<close> is the sequence in which \<open>GetLeastFreshOrder\<close> visits
  the shelf's orders, \<open>orders\<close> the snapshot of \<open>tryMoveFromShelfGroup\<close>.
\<close>

definition discardOrderFromShelfGroup_listed :: "Time \<Rightarrow> StoredOrder list \<Rightarrow> StoredOrder list
    \<Rightarrow> FulfillmentSystem \<Rightarrow> FulfillmentSystem" where
  "discardOrderFromShelfGroup_listed now scan orders fs =
     (case GetLeastFreshOrder_listed now scan of
        None \<Rightarrow> fs
      | Some candidate \<Rightarrow>
          (case tryMoveFromShelfGroup_listed now (Temperature (Order candidate)) orders fs of
             (True, fs') \<Rightarrow> fs'
           | (False, fs') \<Rightarrow>
               (case Group_Remove (ShelfGroup fs') (ID (Order candidate)) of
                  (shelves', Some removed) \<Rightarrow>
                    logAction (fs'\<lparr>ShelfGroup := shelves'\<rparr>) (ID (Order candidate)) ACTION_TYPE_DISCARD now
                | (shelves', None) \<Rightarrow> fs'\<lparr>ShelfGroup := shelves'\<rparr>)))"

definition discardOrderFromShelfGroup :: "Time \<Rightarrow> FulfillmentSystem \<Rightarrow> FulfillmentSystem" where
  "discardOrderFromShelfGroup now fs =
     discardOrderFromShelfGroup_listed now (Group_ListOrders (ShelfGroup fs))
       (Group_ListOrders (ShelfGroup fs)) fs"

text \<open>
  The tail shared by both branches of \<open>PlaceOrder\<close>: discard when the shelf is full, then
  one more shelf insert; a failed insert drops the order without a trace.
\<close>

definition discard_then_add :: "Time \<Rightarrow> Order \<Rightarrow> StoredOrder \<Rightarrow> FulfillmentSystem \<Rightarrow> FulfillmentSystem" where
  "discard_then_add now order storedOrder fs =
     (let fs1 = (if Group_IsFull (ShelfGroup fs) then discardOrderFromShelfGroup now fs else fs)
      in case Group_Add (ShelfGroup fs1) storedOrder of
           (shelves', True) \<Rightarrow> logAction (fs1\<lparr>ShelfGroup := shelves'\<rparr>) (ID order) ACTION_TYPE_PLACE now
         | (shelves', False) \<Rightarrow> fs1\<lparr>ShelfGroup := shelves'\<rparr>)"

definition idealGroup_of :: "string \<Rightarrow> FulfillmentSystem \<Rightarrow> StorageGroup" where
  "idealGroup_of temp fs = (if temp = TEMP_TYPE_HOT then HeaterGroup fs else CoolerGroup fs)"

definition set_idealGroup :: "string \<Rightarrow> StorageGroup \<Rightarrow> FulfillmentSystem \<Rightarrow> FulfillmentSystem" where
  "set_idealGroup temp g fs = (if temp = TEMP_TYPE_HOT then fs\<lparr>HeaterGroup := g\<rparr> else fs\<lparr>CoolerGroup := g\<rparr>)"

definition PlaceOrder :: "Time \<Rightarrow> Order \<Rightarrow> FulfillmentSystem \<Rightarrow> FulfillmentSystem" where
  "PlaceOrder now order fs =
     (let storedOrder = \<lparr>Order = order, PlacedAt = now\<rparr> in
      if Temperature order = TEMP_TYPE_HOT \<or> Temperature order = TEMP_TYPE_COLD
      then (case Group_Add (idealGroup_of (Temperature order) fs) storedOrder of
              (ideal', True) \<Rightarrow>
                logAction (set_idealGroup (Temperature order) ideal' fs) (ID order) ACTION_TYPE_PLACE now
            | (ideal', False) \<Rightarrow>
                (let fs1 = set_idealGroup (Temperature order) ideal' fs in
                 case Group_Add (ShelfGroup fs1) storedOrder of
                   (shelves', True) \<Rightarrow>
                     logAction (fs1\<lparr>ShelfGroup := shelves'\<rparr>) (ID order) ACTION_TYPE_PLACE now
                 | (shelves', False) \<Rightarrow>
                     (let fs2 = fs1\<lparr>ShelfGroup := shelves'\<rparr> in
                      if Group_IsFull (ShelfGroup fs2)
                      then (case tryMoveFromShelfGroup now (Temperature order) fs2 of
                              (True, fs3) \<Rightarrow>
                                (case Group_Add (ShelfGroup fs3) storedOrder of
                                   (shelves'', True) \<Rightarrow>
                                     logAction (fs3\<lparr>ShelfGroup := shelves''\<rparr>) (ID order) ACTION_TYPE_PLACE now
                                 | (shelves'', False) \<Rightarrow>
                                     discard_then_add now order storedOrder (fs3\<lparr>ShelfGroup := shelves''\<rparr>))
                            | (False, fs3) \<Rightarrow> discard_then_add now order storedOrder fs3)
                      else discard_then_add now order storedOrder fs2)))
      else (case Group_Add (ShelfGroup fs) storedOrder of
              (shelves', True) \<Rightarrow> logAction (fs\<lparr>ShelfGroup := shelves'\<rparr>) (ID order) ACTION_TYPE_PLACE now
            | (shelves', False) \<Rightarrow> discard_then_add now order storedOrder (fs\<lparr>ShelfGroup := shelves'\<rparr>)))"

definition PickupOrder :: "Time \<Rightarrow> string \<Rightarrow> FulfillmentSystem \<Rightarrow> FulfillmentSystem" where
  "PickupOrder now orderID fs =
     (case Group_Remove (HeaterGroup fs) orderID of
        (heaters', Some so) \<Rightarrow> logAction (fs\<lparr>HeaterGroup := heaters'\<rparr>) (ID (Order so)) ACTION_TYPE_PICKUP now
      | (heaters', None) \<Rightarrow>
          (let fs1 = fs\<lparr>HeaterGroup := heaters'\<rparr> in
           case Group_Remove (CoolerGroup fs1) orderID of
             (coolers', Some so) \<Rightarrow> logAction (fs1\<lparr>CoolerGroup := coolers'\<rparr>) (ID (Order so)) ACTION_TYPE_PICKUP now
           | (coolers', None) \<Rightarrow>
               (let fs2 = fs1\<lparr>CoolerGroup := coolers'\<rparr> in
                case Group_Remove (ShelfGroup fs2) orderID of
                  (shelves', Some so) \<Rightarrow> logAction (fs2\<lparr>ShelfGroup := shelves'\<rparr>) (ID (Order so)) ACTION_TYPE_PICKUP now
                | (shelves', None) \<Rightarrow> fs2\<lparr>ShelfGroup := shelves'\<rparr>)))"

text \<open>
  One tick of \<open>ReallocateOrders\<close> (the body of \<open>case <-ticker.C\<close>). \<open>realloc_order\<close> is the
  body of the loop over the snapshot \<open>shelfOrders\<close>.
\<close>

definition realloc_order :: "Time \<Rightarrow> FulfillmentSystem \<Rightarrow> StoredOrder \<Rightarrow> FulfillmentSystem" where
  "realloc_order now fs so =
     (if Temperature (Order so) = TEMP_TYPE_HOT \<and> \<not> Group_IsFull (HeaterGroup fs)
      then (case moveFromShelves now (ID (Order so)) (ShelfGroup fs) (HeaterGroup fs) of
              (True, shelves', ideal') \<Rightarrow>
                logAction (fs\<lparr>ShelfGroup := shelves', HeaterGroup := ideal'\<rparr>) (ID (Order so)) ACTION_TYPE_MOVE now
            | (False, shelves', ideal') \<Rightarrow> fs\<lparr>ShelfGroup := shelves', HeaterGroup := ideal'\<rparr>)
      else if Temperature (Order so) = TEMP_TYPE_COLD \<and> \<not> Group_IsFull (CoolerGroup fs)
      then (case moveFromShelves now (ID (Order so)) (ShelfGroup fs) (CoolerGroup fs) of
              (True, shelves', ideal') \<Rightarrow>
                logAction (fs\<lparr>ShelfGroup := shelves', CoolerGroup := ideal'\<rparr>) (ID (Order so)) ACTION_TYPE_MOVE now
            | (False, shelves', ideal') \<Rightarrow> fs\<lparr>ShelfGroup := shelves', CoolerGroup := ideal'\<rparr>)
      else fs)"

definition ReallocateOrders_tick :: "Time \<Rightarrow> FulfillmentSystem \<Rightarrow> FulfillmentSystem" where
  "ReallocateOrders_tick now fs =
     (if \<not> Group_IsFull (ShelfGroup fs) then fs
      else foldl (realloc_order now) fs (Group_ListOrders (ShelfGroup fs)))"

section \<open>Predicates and notions used by the properties\<close>

text \<open>The ids stored in a unit, in a group, and in the whole system.\<close>

definition keys :: "Storage \<Rightarrow> string list" where
  "keys s = map fst (Orders s)"

definition group_keys :: "StorageGroup \<Rightarrow> string list" where
  "group_keys g = concat (map keys g)"

definition all_keys :: "FulfillmentSystem \<Rightarrow> string list" where
  "all_keys fs = group_keys (HeaterGroup fs) @ group_keys (CoolerGroup fs) @ group_keys (ShelfGroup fs)"

text \<open>Every order id occurs in at most one unit of the system (and once in that unit).\<close>

definition unique_ids :: "FulfillmentSystem \<Rightarrow> bool" where
  "unique_ids fs = distinct (all_keys fs)"

text \<open>
  A unit is well formed when its association list is a map (no key twice), every order is
  stored under its own id, and the occupancy is within the capacity.
\<close>

definition unit_ok :: "Storage \<Rightarrow> bool" where
  "unit_ok s = (distinct (keys s) \<and> list_all (\<lambda>(k, so). k = ID (Order so)) (Orders s) \<and> len s \<le> Capacity s)"

definition group_ok :: "StorageGroup \<Rightarrow> bool" where
  "group_ok g = list_all unit_ok g"

definition sys_ok :: "FulfillmentSystem \<Rightarrow> bool" where
  "sys_ok fs = (group_ok (HeaterGroup fs) \<and> group_ok (CoolerGroup fs) \<and> group_ok (ShelfGroup fs))"


text \<open>Sequential runs of the engine: the calls that reach the storage, each with its clock reading.\<close>

datatype op =
    Place Time Order
  | Pickup Time string
  | Tick Time
  | Discard Time
  | TryMove Time string

fun step :: "FulfillmentSystem \<Rightarrow> op \<Rightarrow> FulfillmentSystem" where
  "step fs (Place now order) = PlaceOrder now order fs"
| "step fs (Pickup now orderID) = PickupOrder now orderID fs"
| "step fs (Tick now) = ReallocateOrders_tick now fs"
| "step fs (Discard now) = discardOrderFromShelfGroup now fs"
| "step fs (TryMove now temp) = snd (tryMoveFromShelfGroup now temp fs)"

definition run :: "FulfillmentSystem \<Rightarrow> op list \<Rightarrow> FulfillmentSystem" where
  "run fs ops = foldl step fs ops"

fun placed_ids :: "op list \<Rightarrow> string list" where
  "placed_ids [] = []"
| "placed_ids (Place now order # ops) = ID order # placed_ids ops"
| "placed_ids (_ # ops) = placed_ids ops"

text \<open>
  The double-rate formula as section 4.3 of the specification words it, on the order's
  original nominal freshness: \<open>nominalFreshness/2 - elapsed\<close>.
\<close>

definition spec_doubleRateRemaining :: "Time \<Rightarrow> StoredOrder \<Rightarrow> Duration" where
  "spec_doubleRateRemaining now so = (InitialFreshness (Order so) sdiv 2) - (now - PlacedAt so)"

text \<open>Concrete orders, units and configurations for the examples.\<close>

definition ex_order :: "string \<Rightarrow> string \<Rightarrow> Duration \<Rightarrow> Order" where
  "ex_order i temp f = \<lparr>ID = i, Order.Name = ''meal'', Temperature = temp, Freshness = f, InitialFreshness = f\<rparr>"

definition ex_stored :: "string \<Rightarrow> string \<Rightarrow> Duration \<Rightarrow> Time \<Rightarrow> StoredOrder" where
  "ex_stored i temp f at = \<lparr>Order = ex_order i temp f, PlacedAt = at\<rparr>"

definition ex_unit :: "string \<Rightarrow> int \<Rightarrow> StoredOrder list \<Rightarrow> Storage" where
  "ex_unit name capacity sos = \<lparr>Name = name, Capacity = capacity, Orders = map (\<lambda>so. (ID (Order so), so)) sos\<rparr>"

definition ex_cfg :: FulfillmentConfig where
  "ex_cfg = \<lparr>NumCoolers = 1, CoolerCap = 1, NumHeaters = 1, HeaterCap = 1, NumShelves = 2, ShelfCap = 1\<rparr>"

text \<open>
  A run that leaves two hot orders on the two shelf units and the heater empty: the heater
  takes \<open>x\<close>, the shelves take \<open>a\<close> and \<open>b\<close>, then \<open>x\<close> is picked up.
\<close>

definition ex_two_hot_on_shelf :: FulfillmentSystem where
  "ex_two_hot_on_shelf =
     run (NewFulfillmentSystem ex_cfg)
       [Place 0 (ex_order ''x'' ''hot'' 100), Place 0 (ex_order ''a'' ''hot'' 100),
        Place 0 (ex_order ''b'' ''hot'' 50), Pickup 5 ''x'']"


text \<open>
  A configuration without coolers, with one heater unit of capacity 1 and one shelf unit of
  capacity 2, and the run that puts the hot order \<open>x\<close> in the heater and the hot order \<open>b\<close> and
  the room order \<open>r\<close> on the shelf, all at time 0.
\<close>

definition ex_cfg_one_shelf :: FulfillmentConfig where
  "ex_cfg_one_shelf = \<lparr>NumCoolers = 0, CoolerCap = 0, NumHeaters = 1, HeaterCap = 1, NumShelves = 1, ShelfCap = 2\<rparr>"

definition ex_hot_and_room_on_shelf :: FulfillmentSystem where
  "ex_hot_and_room_on_shelf =
     run (NewFulfillmentSystem ex_cfg_one_shelf)
       [Place 0 (ex_order ''x'' ''hot'' 100), Place 0 (ex_order ''b'' ''hot'' 50),
        Place 0 (ex_order ''r'' ''room'' 27)]"

section \<open>Basic facts about the storage operations\<close>

lemmas ex_defs = ex_order_def ex_stored_def ex_unit_def
lemmas const_defs = TEMP_TYPE_HOT_def TEMP_TYPE_COLD_def TEMP_TYPE_ROOM_def
  ACTION_TYPE_PLACE_def ACTION_TYPE_MOVE_def ACTION_TYPE_PICKUP_def ACTION_TYPE_DISCARD_def

text \<open>The equations that evaluate the model on concrete systems.\<close>

lemmas eval_defs = PlaceOrder_def PickupOrder_def NewFulfillmentSystem_def ex_cfg_def ex_defs const_defs
  upto.simps idealGroup_of_def set_idealGroup_def NewStorage_def Storage_IsFull_def Storage_Add_def
  Storage_Remove_def len_def logAction_def Storage_ListOrders_def RemainingFreshness_def
  signed_divide_int_def run_def discard_then_add_def discardOrderFromShelfGroup_def
  tryMoveFromShelfGroup_def atomicMoveOrder_def GetLeastFreshOrder_def Group_ListOrders_def Let_def
  digit_char_def decimal.simps discardOrderFromShelfGroup_listed_def tryMoveFromShelfGroup_listed_def
  GetLeastFreshOrder_listed_def ex_cfg_one_shelf_def Since_def dsub_def dmul_def ddiv_def wrap64_def
  sat64_def

lemmas int64_arith_defs = Since_def dsub_def dmul_def ddiv_def wrap64_def sat64_def

text \<open>On \<open>int64\<close> values the wrap-around and the saturation change nothing.\<close>

lemma wrap64_id: "int64 x \<Longrightarrow> wrap64 x = x"
  by (simp add: int64_def wrap64_def)

lemma sat64_id: "int64 x \<Longrightarrow> sat64 x = x"
  by (simp add: int64_def sat64_def)

lemma int64_wrap64: "int64 (wrap64 x)"
proof -
  have "0 \<le> (x + 9223372036854775808) mod 18446744073709551616"
    and "(x + 9223372036854775808) mod 18446744073709551616 < 18446744073709551616"
    by simp_all
  then show ?thesis unfolding int64_def wrap64_def by linarith
qed

lemma int64_sat64: "int64 (sat64 x)"
  by (simp add: int64_def sat64_def)

lemma int64_sdiv_2: "int64 x \<Longrightarrow> int64 (x sdiv 2)"
  by (simp add: int64_def signed_divide_int_def sgn_if) linarith

lemmas ok_defs = sys_ok_def group_ok_def unit_ok_def keys_def len_def ex_defs

subsection \<open>Association lists\<close>

lemma length_update_le: "length (AList.update k v al) \<le> Suc (length al)"
  by (induction al) auto

lemma length_update_mem: "k \<in> fst ` set al \<Longrightarrow> length (AList.update k v al) = length al"
  by (induction al) auto

lemma length_update_new: "k \<notin> fst ` set al \<Longrightarrow> length (AList.update k v al) = Suc (length al)"
  by (induction al) auto

lemma length_delete_mem: "k \<in> fst ` set al \<Longrightarrow> length (AList.delete k al) < length al"
proof (induction al)
  case Nil
  then show ?case by simp
next
  case (Cons p al)
  have "length (AList.delete k al) \<le> length al" by (rule AList.length_delete_le)
  with Cons show ?case by (cases "fst p = k") (auto simp: less_Suc_eq_le)
qed

lemma length_delete_distinct:
  "distinct (map fst al) \<Longrightarrow> k \<in> fst ` set al \<Longrightarrow> Suc (length (AList.delete k al)) = length al"
  by (induction al) (auto simp: rev_image_eqI)

lemma map_of_None_iff: "map_of al k = None \<longleftrightarrow> k \<notin> fst ` set al"
  by (simp add: map_of_eq_None_iff)

lemma keys_match_update:
  "list_all (\<lambda>(k, so). k = ID (Order so)) al \<Longrightarrow> k = ID (Order v) \<Longrightarrow>
   list_all (\<lambda>(k, so). k = ID (Order so)) (AList.update k v al)"
  by (induction al) auto

lemma keys_match_delete:
  "list_all (\<lambda>(k, so). k = ID (Order so)) al \<Longrightarrow>
   list_all (\<lambda>(k, so). k = ID (Order so)) (AList.delete k al)"
  by (induction al) auto

lemma keys_match_map_of:
  "list_all (\<lambda>(k, so). k = ID (Order so)) al \<Longrightarrow> map_of al k = Some so \<Longrightarrow> ID (Order so) = k"
  by (induction al) (auto split: if_splits)

lemma mset_removeAll_subset: "k \<in> set xs \<Longrightarrow> add_mset k (mset (removeAll k xs)) \<subseteq># mset xs"
proof (rule mset_subset_eqI)
  fix a
  assume k: "k \<in> set xs"
  have "mset (removeAll k xs) = filter_mset (\<lambda>y. k \<noteq> y) (mset xs)"
    by (simp add: removeAll_filter_not_eq)
  moreover from k have "1 \<le> count (mset xs) k"
    by (simp add: Suc_le_eq)
  ultimately show "count (add_mset k (mset (removeAll k xs))) a \<le> count (mset xs) a"
    by auto
qed

lemma distinct_mset_subseteq:
  assumes "mset ys \<subseteq># mset xs" and "distinct xs"
  shows "distinct ys"
  unfolding distinct_count_atmost_1
proof
  fix a
  have "count (mset ys) a \<le> count (mset xs) a"
    using assms(1) by (rule mset_subset_eq_count)
  moreover have "count (mset xs) a \<le> 1"
    using assms(2) by (simp add: distinct_count_atmost_1)
  ultimately have le: "count (mset ys) a \<le> 1" by simp
  show "count (mset ys) a = (if a \<in> set ys then 1 else 0)"
  proof (cases "a \<in> set ys")
    case True
    define n where "n = count (mset ys) a"
    from True have "n \<noteq> 0" by (simp add: n_def count_eq_zero_iff)
    moreover from le have "n \<le> 1" by (simp add: n_def)
    ultimately have "n = 1" by arith
    with True show ?thesis by (simp add: n_def)
  next
    case False
    then show ?thesis by (simp add: count_eq_zero_iff)
  qed
qed

subsection \<open>Units\<close>

lemma group_keys_simps [simp]:
  "group_keys [] = []" "group_keys (s # g) = keys s @ group_keys g"
  "group_keys (g @ h) = group_keys g @ group_keys h"
  by (simp_all add: group_keys_def)

lemma group_ok_simps [simp]:
  "group_ok [] = True" "group_ok (s # g) = (unit_ok s \<and> group_ok g)"
  by (simp_all add: group_ok_def)

lemma Group_ListOrders_simps [simp]:
  "Group_ListOrders [] = []" "Group_ListOrders (s # g) = Storage_ListOrders s @ Group_ListOrders g"
  by (simp_all add: Group_ListOrders_def)

lemma in_keys_iff: "i \<in> set (keys s) \<longleftrightarrow> map_of (Orders s) i \<noteq> None"
  by (simp add: keys_def map_of_eq_None_iff)

lemma unit_ok_update:
  assumes "unit_ok s" and "k = ID (Order so)" and "k \<in> set (keys s) \<or> len s < Capacity s"
  shows "unit_ok (s\<lparr>Orders := AList.update k so (Orders s)\<rparr>)"
proof -
  have "int (length (AList.update k so (Orders s))) \<le> Capacity s"
  proof (cases "k \<in> set (keys s)")
    case True
    then show ?thesis using assms(1) by (simp add: length_update_mem keys_def unit_ok_def len_def)
  next
    case False
    with assms(3) show ?thesis by (simp add: length_update_new keys_def len_def)
  qed
  with assms(1,2) show ?thesis
    by (simp add: unit_ok_def keys_def len_def AList.distinct_update keys_match_update)
qed

lemma unit_ok_delete: "unit_ok s \<Longrightarrow> unit_ok (s\<lparr>Orders := AList.delete k (Orders s)\<rparr>)"
  using AList.length_delete_le [of k "Orders s"]
  by (simp add: unit_ok_def keys_def len_def AList.distinct_delete keys_match_delete)

lemma unit_ok_Storage_Add: "unit_ok s \<Longrightarrow> unit_ok (fst (Storage_Add s so))"
  by (auto simp: Storage_Add_def in_keys_iff intro!: unit_ok_update)

lemma unit_ok_Storage_Remove: "unit_ok s \<Longrightarrow> unit_ok (fst (Storage_Remove s i))"
  by (auto simp: Storage_Remove_def unit_ok_delete split: option.splits)

lemma Storage_Add_not_full: "\<not> Storage_IsFull s \<Longrightarrow> snd (Storage_Add s so)"
  by (simp add: Storage_Add_def Storage_IsFull_def)

lemma map_of_Some_in_keys: "map_of al k = Some v \<Longrightarrow> k \<in> fst ` set al"
  by (metis map_of_eq_None_iff option.distinct(1))

lemma mset_keys_update:
  "mset (map fst (AList.update k v al)) =
     (if k \<in> fst ` set al then mset (map fst al) else add_mset k (mset (map fst al)))"
  by (induction al) auto

lemma mset_keys_update_le: "mset (map fst (AList.update k v al)) \<subseteq># add_mset k (mset (map fst al))"
  unfolding mset_keys_update by simp

lemma Storage_Add_keys:
  "mset (keys (fst (Storage_Add s so))) \<subseteq># add_mset (ID (Order so)) (mset (keys s))"
  using mset_keys_update_le [of "ID (Order so)" so "Orders s"]
  by (simp add: Storage_Add_def keys_def del: mset_map)

lemma Storage_Add_mem: "snd (Storage_Add s so) \<Longrightarrow> ID (Order so) \<in> set (keys (fst (Storage_Add s so)))"
  by (auto simp: Storage_Add_def keys_def AList.dom_update split: if_splits)

lemma Storage_Add_Capacity [simp]: "Capacity (fst (Storage_Add s so)) = Capacity s"
  by (simp add: Storage_Add_def)

lemma Storage_Remove_None: "i \<notin> set (keys s) \<Longrightarrow> Storage_Remove s i = (s, None)"
  by (simp add: Storage_Remove_def in_keys_iff)

lemma Storage_Remove_Some:
  "map_of (Orders s) i = Some so \<Longrightarrow> Storage_Remove s i = (s\<lparr>Orders := AList.delete i (Orders s)\<rparr>, Some so)"
  by (simp add: Storage_Remove_def)

subsection \<open>Groups\<close>

lemma Group_IsFull_iff: "Group_IsFull g \<longleftrightarrow> list_all Storage_IsFull g"
  by (induction g) auto

lemma Group_IsFull_append [simp]: "Group_IsFull (g @ h) \<longleftrightarrow> Group_IsFull g \<and> Group_IsFull h"
  by (simp add: Group_IsFull_iff)

lemma Group_Add_Cons_room:
  "\<not> Storage_IsFull s \<Longrightarrow> Group_Add (s # g) so = (fst (Storage_Add s so) # g, True)"
  using Storage_Add_not_full [of s so]
  by (cases "Storage_Add s so") simp

lemma Group_Add_Cons_full:
  "Storage_IsFull s \<Longrightarrow> Group_Add (s # g) so = (s # fst (Group_Add g so), snd (Group_Add g so))"
  by (cases "Group_Add g so") simp

lemmas Group_Add_Cons = Group_Add_Cons_room Group_Add_Cons_full

lemma Group_Add_snd: "snd (Group_Add g so) = (\<not> Group_IsFull g)"
proof (induction g)
  case Nil
  then show ?case by simp
next
  case (Cons s g)
  then show ?case
    by (cases "Storage_IsFull s") (simp_all add: Group_Add_Cons del: Group_Add.simps)
qed

lemma Group_Add_full: "Group_IsFull g \<Longrightarrow> Group_Add g so = (g, False)"
  by (induction g) (auto split: if_splits)

lemma group_ok_Group_Add: "group_ok g \<Longrightarrow> group_ok (fst (Group_Add g so))"
proof (induction g)
  case Nil
  then show ?case by simp
next
  case (Cons s g)
  then show ?case
    using unit_ok_Storage_Add [of s so]
    by (cases "Storage_IsFull s") (simp_all add: Group_Add_Cons del: Group_Add.simps)
qed

lemma Group_Add_keys:
  "mset (group_keys (fst (Group_Add g so))) \<subseteq># add_mset (ID (Order so)) (mset (group_keys g))"
proof (induction g)
  case Nil
  then show ?case by simp
next
  case (Cons s g)
  have unit: "mset (keys (fst (Storage_Add s so))) \<subseteq># add_mset (ID (Order so)) (mset (keys s))"
    by (rule Storage_Add_keys)
  show ?case
  proof (cases "\<not> Storage_IsFull s")
    case True
    then have "Group_Add (s # g) so = (fst (Storage_Add s so) # g, True)"
      by (rule Group_Add_Cons_room)
    with unit show ?thesis
      by (simp add: subset_mset.add_mono [where c = "mset (group_keys g)" and d = "mset (group_keys g)", simplified])
  next
    case False
    then have "fst (Group_Add (s # g) so) = s # fst (Group_Add g so)"
      by (simp add: Group_Add_Cons_full del: Group_Add.simps)
    with Cons.IH show ?thesis
      by (simp add: subset_mset.add_mono [where a = "mset (keys s)" and b = "mset (keys s)", simplified])
  qed
qed

lemma Group_Add_mem: "snd (Group_Add g so) \<Longrightarrow> ID (Order so) \<in> set (group_keys (fst (Group_Add g so)))"
proof (induction g)
  case Nil
  then show ?case by simp
next
  case (Cons s g)
  then show ?case
    using Storage_Add_mem [of s so] Storage_Add_not_full [of s so]
    by (cases "Storage_IsFull s") (simp_all add: Group_Add_Cons del: Group_Add.simps)
qed

lemma Group_Add_Capacity [simp]: "map Capacity (fst (Group_Add g so)) = map Capacity g"
proof (induction g)
  case Nil
  then show ?case by simp
next
  case (Cons s g)
  then show ?case
    by (cases "Storage_IsFull s") (simp_all add: Group_Add_Cons del: Group_Add.simps)
qed

lemma Group_Remove_None: "i \<notin> set (group_keys g) \<Longrightarrow> Group_Remove g i = (g, None)"
  by (induction g) (auto simp: Storage_Remove_None)

lemma Group_Remove_Some:
  "i \<in> set (group_keys g) \<Longrightarrow>
   \<exists>pre s post so. g = pre @ s # post \<and> i \<notin> set (group_keys pre) \<and> map_of (Orders s) i = Some so \<and>
      Group_Remove g i = (pre @ s\<lparr>Orders := AList.delete i (Orders s)\<rparr> # post, Some so)"
proof (induction g)
  case Nil
  then show ?case by simp
next
  case (Cons s g)
  show ?case
  proof (cases "i \<in> set (keys s)")
    case True
    then obtain so where so: "map_of (Orders s) i = Some so"
      by (auto simp: in_keys_iff)
    then have "Group_Remove (s # g) i = ([] @ s\<lparr>Orders := AList.delete i (Orders s)\<rparr> # g, Some so)"
      by (simp add: Storage_Remove_Some)
    with so show ?thesis
      by (intro exI [of _ "[]"] exI [of _ s] exI [of _ g] exI [of _ so]) simp
  next
    case False
    with Cons.prems have "i \<in> set (group_keys g)" by simp
    from Cons.IH [OF this] obtain pre u post so where
      g: "g = pre @ u # post" and pre: "i \<notin> set (group_keys pre)" and so: "map_of (Orders u) i = Some so"
      and r: "Group_Remove g i = (pre @ u\<lparr>Orders := AList.delete i (Orders u)\<rparr> # post, Some so)"
      by blast
    from False r have "Group_Remove (s # g) i = ((s # pre) @ u\<lparr>Orders := AList.delete i (Orders u)\<rparr> # post, Some so)"
      by (simp add: Storage_Remove_None)
    with g pre so False show ?thesis
      by (intro exI [of _ "s # pre"] exI [of _ u] exI [of _ post] exI [of _ so]) simp
  qed
qed

lemma group_ok_append [simp]: "group_ok (g @ h) \<longleftrightarrow> group_ok g \<and> group_ok h"
  by (simp add: group_ok_def)

lemma group_ok_Group_Remove: "group_ok g \<Longrightarrow> group_ok (fst (Group_Remove g i))"
proof (cases "i \<in> set (group_keys g)")
  case True
  assume ok: "group_ok g"
  from Group_Remove_Some [OF True] obtain pre s post so where
    "g = pre @ s # post" "Group_Remove g i = (pre @ s\<lparr>Orders := AList.delete i (Orders s)\<rparr> # post, Some so)"
    by blast
  with ok show ?thesis by (simp add: unit_ok_delete)
next
  case False
  assume "group_ok g"
  with False show ?thesis by (simp add: Group_Remove_None)
qed

lemma keys_delete_subset: "mset (keys (s\<lparr>Orders := AList.delete i (Orders s)\<rparr>)) \<subseteq># mset (keys s)"
  by (simp add: keys_def AList.delete_keys removeAll_filter_not_eq)

lemma Group_Remove_keys: "mset (group_keys (fst (Group_Remove g i))) \<subseteq># mset (group_keys g)"
proof (cases "i \<in> set (group_keys g)")
  case True
  from Group_Remove_Some [OF True] obtain pre s post so where
    g: "g = pre @ s # post" and r: "Group_Remove g i = (pre @ s\<lparr>Orders := AList.delete i (Orders s)\<rparr> # post, Some so)"
    by blast
  have sub: "mset (keys (s\<lparr>Orders := AList.delete i (Orders s)\<rparr>)) \<subseteq># mset (keys s)"
    by (rule keys_delete_subset)
  from r have eq: "group_keys (fst (Group_Remove g i))
      = group_keys pre @ keys (s\<lparr>Orders := AList.delete i (Orders s)\<rparr>) @ group_keys post"
    by simp
  have eq': "group_keys g = group_keys pre @ keys s @ group_keys post"
    by (simp add: g)
  show ?thesis
    unfolding eq eq' using sub by (simp add: subset_mset.add_mono)
next
  case False
  then show ?thesis by (simp add: Group_Remove_None)
qed

lemma Group_Remove_not_full:
  assumes "group_ok g" and "i \<in> set (group_keys g)"
  shows "\<not> Group_IsFull (fst (Group_Remove g i))"
proof -
  from Group_Remove_Some [OF assms(2)] obtain pre s post so where
    g: "g = pre @ s # post" and so: "map_of (Orders s) i = Some so"
    and r: "Group_Remove g i = (pre @ s\<lparr>Orders := AList.delete i (Orders s)\<rparr> # post, Some so)"
    by blast
  from assms(1) g have "len s \<le> Capacity s" by (simp add: unit_ok_def)
  moreover from so have "length (AList.delete i (Orders s)) < length (Orders s)"
    by (intro length_delete_mem) (rule map_of_Some_in_keys)
  ultimately have "\<not> Storage_IsFull (s\<lparr>Orders := AList.delete i (Orders s)\<rparr>)"
    by (simp add: Storage_IsFull_def len_def)
  with r show ?thesis by simp
qed

lemma Group_Remove_Capacity [simp]: "map Capacity (fst (Group_Remove g i)) = map Capacity g"
  by (induction g) (auto simp: Storage_Remove_def split: prod.splits option.splits)

subsection \<open>atomicMoveOrder\<close>

lemma atomicMove_scan_full:
  "Group_IsFull dst \<Longrightarrow> atomicMove_scan i ord src dst = (False, src, dst)"
  by (induction dst) (auto simp: Storage_IsFull_def split: if_splits)

lemma atomicMove_scan_fst:
  "fst (atomicMove_scan i ord src dst) = (\<not> Group_IsFull dst)"
  by (induction dst) (auto simp: Storage_IsFull_def split: prod.splits)

lemma atomicMove_scan_room:
  "\<not> Group_IsFull dst \<Longrightarrow>
   \<exists>pre d post. dst = pre @ d # post \<and> Group_IsFull pre \<and> len d < Capacity d \<and>
      atomicMove_scan i ord src dst =
        (True, src\<lparr>Orders := AList.delete i (Orders src)\<rparr>,
         pre @ d\<lparr>Orders := AList.update i ord (Orders d)\<rparr> # post)"
proof (induction dst)
  case Nil
  then show ?case by simp
next
  case (Cons d dst)
  show ?case
  proof (cases "len d < Capacity d")
    case True
    then show ?thesis
      by (intro exI [of _ "[]"] exI [of _ d] exI [of _ dst]) simp
  next
    case False
    with Cons.prems have "\<not> Group_IsFull dst" by (simp add: Storage_IsFull_def)
    from Cons.IH [OF this] obtain pre e post where
      "dst = pre @ e # post" "Group_IsFull pre" "len e < Capacity e"
      "atomicMove_scan i ord src dst =
        (True, src\<lparr>Orders := AList.delete i (Orders src)\<rparr>,
         pre @ e\<lparr>Orders := AList.update i ord (Orders e)\<rparr> # post)"
      by blast
    with False show ?thesis
      by (intro exI [of _ "d # pre"] exI [of _ e] exI [of _ post]) (simp add: Storage_IsFull_def)
  qed
qed

text \<open>The three ways a call of \<open>atomicMoveOrder\<close> can end.\<close>

lemma atomicMoveOrder_result:
  assumes "atomicMoveOrder now i src dst = (m, src', dst')"
  shows "(\<not> m \<and> dst' = dst \<and> src' = src)
       \<or> (\<not> m \<and> dst' = dst \<and> Group_IsFull dst \<and>
            (\<exists>ord ord'. map_of (Orders src) i = Some ord \<and> ID (Order ord') = ID (Order ord) \<and>
               src' = src\<lparr>Orders := AList.update i ord' (Orders src)\<rparr>))
       \<or> (m \<and> (\<exists>ord ord' pre d post. map_of (Orders src) i = Some ord \<and>
                 ID (Order ord') = ID (Order ord) \<and>
                 src' = src\<lparr>Orders := AList.delete i (Orders src)\<rparr> \<and>
                 dst = pre @ d # post \<and> Group_IsFull pre \<and> len d < Capacity d \<and>
                 dst' = pre @ d\<lparr>Orders := AList.update i ord' (Orders d)\<rparr> # post))"
proof (cases "map_of (Orders src) i")
  case None
  with assms show ?thesis by (simp add: atomicMoveOrder_def)
next
  case (Some ord)
  define nr where "nr = dsub (InitialFreshness (Order ord)) (dmul 2 (Since now (PlacedAt ord)))"
  define ord' where "ord' = ord\<lparr>PlacedAt := now, Order := (Order ord)\<lparr>Freshness := nr\<rparr>\<rparr>"
  define src1 where "src1 = src\<lparr>Orders := AList.update i ord' (Orders src)\<rparr>"
  have id': "ID (Order ord') = ID (Order ord)" by (simp add: ord'_def)
  have del: "src1\<lparr>Orders := AList.delete i (Orders src1)\<rparr> = src\<lparr>Orders := AList.delete i (Orders src)\<rparr>"
    by (simp add: src1_def AList.delete_update_same)
  consider (expired) "Temperature (Order ord) \<noteq> TEMP_TYPE_ROOM" "nr \<le> 0"
    | (rewritten) "Temperature (Order ord) \<noteq> TEMP_TYPE_ROOM" "0 < nr"
    | (room) "Temperature (Order ord) = TEMP_TYPE_ROOM"
    by fastforce
  then show ?thesis
  proof cases
    case expired
    with assms Some show ?thesis by (simp add: atomicMoveOrder_def nr_def)
  next
    case rewritten
    with assms Some have scan: "atomicMove_scan i ord' src1 dst = (m, src', dst')"
      by (simp add: atomicMoveOrder_def nr_def ord'_def src1_def Let_def)
    show ?thesis
    proof (cases "Group_IsFull dst")
      case True
      with scan have "\<not> m" "dst' = dst" "src' = src1" by (simp_all add: atomicMove_scan_full)
      with True Some id' show ?thesis unfolding src1_def by blast
    next
      case False
      from atomicMove_scan_room [OF False, of i ord' src1] scan del Some id'
      show ?thesis by (elim exE conjE) (simp, blast)
    qed
  next
    case room
    with assms Some have scan: "atomicMove_scan i ord src dst = (m, src', dst')"
      by (simp add: atomicMoveOrder_def)
    show ?thesis
    proof (cases "Group_IsFull dst")
      case True
      with scan show ?thesis by (simp add: atomicMove_scan_full)
    next
      case False
      from atomicMove_scan_room [OF False, of i ord src] scan Some
      show ?thesis by (elim exE conjE) (simp, blast)
    qed
  qed
qed

lemma keys_update_mem: "i \<in> set (keys s) \<Longrightarrow> keys (s\<lparr>Orders := AList.update i v (Orders s)\<rparr>) = keys s"
  by (simp add: keys_def AList.update_keys)

lemma atomicMoveOrder_fail:
  assumes "atomicMoveOrder now i src dst = (False, src', dst')"
  shows "dst' = dst \<and> keys src' = keys src \<and> Capacity src' = Capacity src"
  using atomicMoveOrder_result [OF assms]
  by (auto simp: keys_update_mem in_keys_iff)

lemma atomicMoveOrder_fail_ok:
  assumes "atomicMoveOrder now i src dst = (False, src', dst')" and "unit_ok src"
  shows "unit_ok src'"
proof -
  have key: "ID (Order ord) = i" if "map_of (Orders src) i = Some ord" for ord
    using assms(2) that by (auto simp: unit_ok_def intro: keys_match_map_of)
  from atomicMoveOrder_result [OF assms(1)] assms(2) key show ?thesis
    by (auto intro!: unit_ok_update simp: in_keys_iff)
qed

lemma atomicMoveOrder_src_ok:
  assumes "atomicMoveOrder now i src dst = (m, src', dst')" and "unit_ok src"
  shows "unit_ok src'"
proof (cases m)
  case True
  with atomicMoveOrder_result [OF assms(1)] have "src' = src\<lparr>Orders := AList.delete i (Orders src)\<rparr>"
    by auto
  with assms(2) show ?thesis by (simp add: unit_ok_delete)
next
  case False
  with assms show ?thesis by (simp add: atomicMoveOrder_fail_ok)
qed

lemma atomicMoveOrder_ok:
  assumes "atomicMoveOrder now i src dst = (m, src', dst')" and "unit_ok src" and "group_ok dst"
  shows "unit_ok src' \<and> group_ok dst'"
proof -
  have key: "ID (Order ord) = i" if "map_of (Orders src) i = Some ord" for ord
    using assms(2) that by (auto simp: unit_ok_def intro: keys_match_map_of)
  from atomicMoveOrder_result [OF assms(1)] show ?thesis
  proof (elim disjE conjE exE)
    assume "dst' = dst" "src' = src"
    with assms show ?thesis by simp
  next
    fix ord ord'
    assume "dst' = dst" "map_of (Orders src) i = Some ord" "ID (Order ord') = ID (Order ord)"
      "src' = src\<lparr>Orders := AList.update i ord' (Orders src)\<rparr>"
    with assms key show ?thesis
      by (auto intro!: unit_ok_update simp: in_keys_iff)
  next
    fix ord ord' pre d post
    assume "map_of (Orders src) i = Some ord" "ID (Order ord') = ID (Order ord)"
      "src' = src\<lparr>Orders := AList.delete i (Orders src)\<rparr>" "dst = pre @ d # post"
      "len d < Capacity d" "dst' = pre @ d\<lparr>Orders := AList.update i ord' (Orders d)\<rparr> # post"
    with assms key show ?thesis
      by (auto intro!: unit_ok_update unit_ok_delete)
  qed
qed

lemma mset_keys_delete_update:
  assumes "i \<in> set (keys s)"
  shows "mset (keys (s\<lparr>Orders := AList.delete i (Orders s)\<rparr>)) + mset (keys (d\<lparr>Orders := AList.update i v (Orders d)\<rparr>))
          \<subseteq># mset (keys s) + mset (keys d)"
proof -
  have a: "add_mset i (mset (keys (s\<lparr>Orders := AList.delete i (Orders s)\<rparr>))) \<subseteq># mset (keys s)"
    using mset_removeAll_subset [OF assms] by (simp add: keys_def AList.delete_keys del: mset_map)
  have b: "mset (keys (d\<lparr>Orders := AList.update i v (Orders d)\<rparr>)) \<subseteq># add_mset i (mset (keys d))"
    using mset_keys_update_le [of i v "Orders d"] by (simp add: keys_def del: mset_map)
  have "mset (keys (s\<lparr>Orders := AList.delete i (Orders s)\<rparr>)) + mset (keys (d\<lparr>Orders := AList.update i v (Orders d)\<rparr>))
        \<subseteq># mset (keys (s\<lparr>Orders := AList.delete i (Orders s)\<rparr>)) + add_mset i (mset (keys d))"
    using b by (rule subset_mset.add_left_mono)
  also have "\<dots> = add_mset i (mset (keys (s\<lparr>Orders := AList.delete i (Orders s)\<rparr>))) + mset (keys d)"
    by simp
  also have "\<dots> \<subseteq># mset (keys s) + mset (keys d)"
    using a by (rule subset_mset.add_right_mono)
  finally show ?thesis .
qed

lemma atomicMoveOrder_keys:
  assumes "atomicMoveOrder now i src dst = (m, src', dst')"
  shows "mset (keys src') + mset (group_keys dst') \<subseteq># mset (keys src) + mset (group_keys dst)"
  using atomicMoveOrder_result [OF assms]
proof (elim disjE conjE exE)
  assume "dst' = dst" "src' = src"
  then show ?thesis by simp
next
  fix ord ord'
  assume "dst' = dst" "map_of (Orders src) i = Some ord"
    "src' = src\<lparr>Orders := AList.update i ord' (Orders src)\<rparr>"
  then show ?thesis by (simp add: keys_update_mem in_keys_iff)
next
  fix ord ord' pre d post
  assume a: "map_of (Orders src) i = Some ord"
    "src' = src\<lparr>Orders := AList.delete i (Orders src)\<rparr>" "dst = pre @ d # post"
    "dst' = pre @ d\<lparr>Orders := AList.update i ord' (Orders d)\<rparr> # post"
  then have "i \<in> set (keys src)" by (simp add: in_keys_iff)
  from mset_keys_delete_update [OF this, where d = d and v = ord']
  have "mset (keys src') + mset (keys (d\<lparr>Orders := AList.update i ord' (Orders d)\<rparr>))
          + (mset (group_keys pre) + mset (group_keys post))
        \<subseteq># mset (keys src) + mset (keys d) + (mset (group_keys pre) + mset (group_keys post))"
    unfolding a(2) by (rule subset_mset.add_right_mono)
  then show ?thesis by (simp add: a(3,4) ac_simps)
qed

lemma atomicMoveOrder_moved:
  assumes "atomicMoveOrder now i src dst = (True, src', dst')"
  shows "i \<in> set (keys src) \<and> Capacity src' = Capacity src \<and> len src' < len src
       \<and> (distinct (keys src) \<longrightarrow> len src' + 1 = len src)
       \<and> map Capacity dst' = map Capacity dst \<and> \<not> Group_IsFull dst"
proof -
  from atomicMoveOrder_result [OF assms] obtain ord ord' pre d post where
    a: "map_of (Orders src) i = Some ord" "src' = src\<lparr>Orders := AList.delete i (Orders src)\<rparr>"
       "dst = pre @ d # post" "len d < Capacity d" "dst' = pre @ d\<lparr>Orders := AList.update i ord' (Orders d)\<rparr> # post"
    by auto
  from a(1) have mem: "i \<in> fst ` set (Orders src)" by (rule map_of_Some_in_keys)
  from mem have "length (AList.delete i (Orders src)) < length (Orders src)"
    by (rule length_delete_mem)
  moreover have "distinct (keys src) \<Longrightarrow> Suc (length (AList.delete i (Orders src))) = length (Orders src)"
    using mem by (simp add: keys_def length_delete_distinct)
  ultimately show ?thesis
    using a mem by (auto simp: keys_def len_def Storage_IsFull_def)
qed

lemma atomicMoveOrder_Capacity:
  assumes "atomicMoveOrder now i src dst = (m, src', dst')"
  shows "Capacity src' = Capacity src \<and> map Capacity dst' = map Capacity dst"
  using atomicMoveOrder_fail [of now i src dst src' dst'] atomicMoveOrder_moved [of now i src dst src' dst'] assms
  by (cases m) auto

subsection \<open>moveFromShelves\<close>

lemma moveFromShelves_Cons:
  assumes "moveFromShelves now i (s # rest) dst = (m, sh', dst')"
  shows "(\<exists>s'. atomicMoveOrder now i s dst = (True, s', dst') \<and> m \<and> sh' = s' # rest)
       \<or> (\<exists>s' d1 rest'. atomicMoveOrder now i s dst = (False, s', d1) \<and>
             moveFromShelves now i rest d1 = (m, rest', dst') \<and> sh' = s' # rest')"
  using assms by (auto split: prod.splits if_splits)

lemma group_keys_cong: "map keys a = map keys b \<Longrightarrow> group_keys a = group_keys b"
  by (simp add: group_keys_def)

lemma length_group_keys: "length (group_keys g) = sum_list (map (length \<circ> keys) g)"
  by (induction g) simp_all

lemma moveFromShelves_ok:
  "moveFromShelves now i sh dst = (m, sh', dst') \<Longrightarrow> group_ok sh \<Longrightarrow> group_ok dst \<Longrightarrow>
     group_ok sh' \<and> group_ok dst'"
proof (induction sh arbitrary: dst m sh' dst')
  case Nil
  then show ?case by simp
next
  case (Cons s rest)
  from moveFromShelves_Cons [OF Cons.prems(1)] show ?case
  proof (elim disjE exE conjE)
    fix s'
    assume "atomicMoveOrder now i s dst = (True, s', dst')" "sh' = s' # rest"
    with Cons.prems atomicMoveOrder_ok [of now i s dst True s' dst'] show ?thesis by simp
  next
    fix s' d1 rest'
    assume a: "atomicMoveOrder now i s dst = (False, s', d1)"
      "moveFromShelves now i rest d1 = (m, rest', dst')" "sh' = s' # rest'"
    from atomicMoveOrder_ok [OF a(1)] Cons.prems have "unit_ok s'" "group_ok d1" by simp_all
    with Cons.IH [OF a(2)] Cons.prems a(3) show ?thesis by simp
  qed
qed

lemma moveFromShelves_shelf_ok:
  "moveFromShelves now i sh dst = (m, sh', dst') \<Longrightarrow> group_ok sh \<Longrightarrow> group_ok sh'"
proof (induction sh arbitrary: dst m sh' dst')
  case Nil
  then show ?case by simp
next
  case (Cons s rest)
  from moveFromShelves_Cons [OF Cons.prems(1)] show ?case
  proof (elim disjE exE conjE)
    fix s'
    assume "atomicMoveOrder now i s dst = (True, s', dst')" "sh' = s' # rest"
    with Cons.prems(2) atomicMoveOrder_src_ok [of now i s dst True s' dst'] show ?thesis by simp
  next
    fix s' d1 rest'
    assume a: "atomicMoveOrder now i s dst = (False, s', d1)"
      "moveFromShelves now i rest d1 = (m, rest', dst')" "sh' = s' # rest'"
    from atomicMoveOrder_src_ok [OF a(1)] Cons.prems(2) have "unit_ok s'" by simp
    with Cons.IH [OF a(2)] Cons.prems(2) a(3) show ?thesis by simp
  qed
qed

lemma moveFromShelves_keys:
  "moveFromShelves now i sh dst = (m, sh', dst') \<Longrightarrow>
     mset (group_keys sh') + mset (group_keys dst') \<subseteq># mset (group_keys sh) + mset (group_keys dst)"
proof (induction sh arbitrary: dst m sh' dst')
  case Nil
  then show ?case by simp
next
  case (Cons s rest)
  from moveFromShelves_Cons [OF Cons.prems(1)] show ?case
  proof (elim disjE exE conjE)
    fix s'
    assume a: "atomicMoveOrder now i s dst = (True, s', dst')" "sh' = s' # rest"
    from atomicMoveOrder_keys [OF a(1)]
    have "mset (keys s') + mset (group_keys dst') + mset (group_keys rest)
          \<subseteq># mset (keys s) + mset (group_keys dst) + mset (group_keys rest)"
      by (rule subset_mset.add_right_mono)
    then show ?thesis by (simp add: a(2) ac_simps)
  next
    fix s' d1 rest'
    assume a: "atomicMoveOrder now i s dst = (False, s', d1)"
      "moveFromShelves now i rest d1 = (m, rest', dst')" "sh' = s' # rest'"
    from atomicMoveOrder_fail [OF a(1)] have f: "d1 = dst" "keys s' = keys s" by simp_all
    from Cons.IH [OF a(2)]
    have "mset (keys s) + (mset (group_keys rest') + mset (group_keys dst'))
          \<subseteq># mset (keys s) + (mset (group_keys rest) + mset (group_keys dst))"
      unfolding f by (rule subset_mset.add_left_mono)
    then show ?thesis by (simp add: a(3) f ac_simps)
  qed
qed

lemma moveFromShelves_fail:
  "moveFromShelves now i sh dst = (False, sh', dst') \<Longrightarrow>
     dst' = dst \<and> map keys sh' = map keys sh \<and> map Capacity sh' = map Capacity sh
     \<and> (group_ok sh \<longrightarrow> group_ok sh')"
proof (induction sh arbitrary: dst sh' dst')
  case Nil
  then show ?case by simp
next
  case (Cons s rest)
  from moveFromShelves_Cons [OF Cons.prems(1)] obtain s' d1 rest' where
    a: "atomicMoveOrder now i s dst = (False, s', d1)"
      "moveFromShelves now i rest d1 = (False, rest', dst')" "sh' = s' # rest'"
    by auto
  from atomicMoveOrder_fail [OF a(1)] atomicMoveOrder_fail_ok [OF a(1)] Cons.IH [OF a(2)] a(3)
  show ?case by simp
qed

lemma moveFromShelves_moved:
  "moveFromShelves now i sh dst = (True, sh', dst') \<Longrightarrow>
     i \<in> set (group_keys sh) \<and> map Capacity sh' = map Capacity sh \<and> map Capacity dst' = map Capacity dst
     \<and> \<not> Group_IsFull dst
     \<and> (group_ok sh \<longrightarrow> \<not> Group_IsFull sh' \<and> Suc (length (group_keys sh')) = length (group_keys sh))"
proof (induction sh arbitrary: dst sh' dst')
  case Nil
  then show ?case by simp
next
  case (Cons s rest)
  from moveFromShelves_Cons [OF Cons.prems(1)] show ?case
  proof (elim disjE exE conjE)
    fix s'
    assume a: "atomicMoveOrder now i s dst = (True, s', dst')" "sh' = s' # rest"
    from atomicMoveOrder_moved [OF a(1)] a(2) show ?thesis
      by (auto simp: unit_ok_def Storage_IsFull_def len_def keys_def)
  next
    fix s' d1 rest'
    assume a: "atomicMoveOrder now i s dst = (False, s', d1)"
      "moveFromShelves now i rest d1 = (True, rest', dst')" "sh' = s' # rest'"
    from atomicMoveOrder_fail [OF a(1)] have f: "d1 = dst" "keys s' = keys s" "Capacity s' = Capacity s"
      by simp_all
    from Cons.IH [OF a(2)] f a(3) show ?thesis by auto
  qed
qed

subsection \<open>tryMoveFromShelfGroup\<close>

lemma tryMove_loop_ok:
  "tryMove_loop now temp orders sh ideal = (r, sh', ideal') \<Longrightarrow> group_ok sh \<Longrightarrow> group_ok ideal \<Longrightarrow>
     group_ok sh' \<and> group_ok ideal'"
proof (induction orders arbitrary: sh ideal)
  case Nil
  then show ?case by simp
next
  case (Cons so orders)
  show ?case
  proof (cases "Temperature (Order so) = temp")
    case True
    obtain m sh1 ideal1 where mv: "moveFromShelves now (ID (Order so)) sh ideal = (m, sh1, ideal1)"
      by (cases "moveFromShelves now (ID (Order so)) sh ideal") auto
    from moveFromShelves_ok [OF mv Cons.prems(2,3)] have ok1: "group_ok sh1" "group_ok ideal1" by simp_all
    show ?thesis
    proof (cases m)
      case True
      with mv \<open>Temperature (Order so) = temp\<close> Cons.prems(1) ok1 show ?thesis by simp
    next
      case False
      with mv \<open>Temperature (Order so) = temp\<close> Cons.prems(1)
      have "tryMove_loop now temp orders sh1 ideal1 = (r, sh', ideal')" by simp
      from Cons.IH [OF this ok1] show ?thesis .
    qed
  next
    case False
    with Cons.prems(1) have "tryMove_loop now temp orders sh ideal = (r, sh', ideal')" by simp
    from Cons.IH [OF this Cons.prems(2,3)] show ?thesis .
  qed
qed

lemma tryMove_loop_shelf_ok:
  "tryMove_loop now temp orders sh ideal = (r, sh', ideal') \<Longrightarrow> group_ok sh \<Longrightarrow> group_ok sh'"
proof (induction orders arbitrary: sh ideal)
  case Nil
  then show ?case by simp
next
  case (Cons so orders)
  show ?case
  proof (cases "Temperature (Order so) = temp")
    case True
    obtain m sh1 ideal1 where mv: "moveFromShelves now (ID (Order so)) sh ideal = (m, sh1, ideal1)"
      by (cases "moveFromShelves now (ID (Order so)) sh ideal") auto
    from moveFromShelves_shelf_ok [OF mv Cons.prems(2)] have ok1: "group_ok sh1" .
    show ?thesis
    proof (cases m)
      case True
      with mv \<open>Temperature (Order so) = temp\<close> Cons.prems(1) ok1 show ?thesis by simp
    next
      case False
      with mv \<open>Temperature (Order so) = temp\<close> Cons.prems(1)
      have "tryMove_loop now temp orders sh1 ideal1 = (r, sh', ideal')" by simp
      from Cons.IH [OF this ok1] show ?thesis .
    qed
  next
    case False
    with Cons.prems(1) have "tryMove_loop now temp orders sh ideal = (r, sh', ideal')" by simp
    from Cons.IH [OF this Cons.prems(2)] show ?thesis .
  qed
qed

lemma tryMove_loop_keys:
  "tryMove_loop now temp orders sh ideal = (r, sh', ideal') \<Longrightarrow>
     mset (group_keys sh') + mset (group_keys ideal') \<subseteq># mset (group_keys sh) + mset (group_keys ideal)"
proof (induction orders arbitrary: sh ideal)
  case Nil
  then show ?case by simp
next
  case (Cons so orders)
  show ?case
  proof (cases "Temperature (Order so) = temp")
    case True
    obtain m sh1 ideal1 where mv: "moveFromShelves now (ID (Order so)) sh ideal = (m, sh1, ideal1)"
      by (cases "moveFromShelves now (ID (Order so)) sh ideal") auto
    note k1 = moveFromShelves_keys [OF mv]
    show ?thesis
    proof (cases m)
      case True
      with mv \<open>Temperature (Order so) = temp\<close> Cons.prems(1) k1 show ?thesis by simp
    next
      case False
      with mv \<open>Temperature (Order so) = temp\<close> Cons.prems(1)
      have "tryMove_loop now temp orders sh1 ideal1 = (r, sh', ideal')" by simp
      from Cons.IH [OF this] k1 show ?thesis by (rule subset_mset.trans)
    qed
  next
    case False
    with Cons.prems(1) have "tryMove_loop now temp orders sh ideal = (r, sh', ideal')" by simp
    from Cons.IH [OF this] show ?thesis .
  qed
qed

lemma tryMove_loop_fail:
  "tryMove_loop now temp orders sh ideal = (None, sh', ideal') \<Longrightarrow>
     ideal' = ideal \<and> map keys sh' = map keys sh \<and> map Capacity sh' = map Capacity sh
     \<and> (group_ok sh \<longrightarrow> group_ok sh')"
proof (induction orders arbitrary: sh ideal)
  case Nil
  then show ?case by simp
next
  case (Cons so orders)
  show ?case
  proof (cases "Temperature (Order so) = temp")
    case True
    obtain m sh1 ideal1 where mv: "moveFromShelves now (ID (Order so)) sh ideal = (m, sh1, ideal1)"
      by (cases "moveFromShelves now (ID (Order so)) sh ideal") auto
    with True Cons.prems have m: "\<not> m" and rest: "tryMove_loop now temp orders sh1 ideal1 = (None, sh', ideal')"
      by (auto split: if_splits)
    from mv m have "moveFromShelves now (ID (Order so)) sh ideal = (False, sh1, ideal1)" by simp
    from moveFromShelves_fail [OF this] Cons.IH [OF rest] show ?thesis by simp
  next
    case False
    with Cons.prems(1) have "tryMove_loop now temp orders sh ideal = (None, sh', ideal')" by simp
    from Cons.IH [OF this] show ?thesis .
  qed
qed

lemma tryMove_loop_moved:
  "tryMove_loop now temp orders sh ideal = (Some j, sh', ideal') \<Longrightarrow>
     (\<exists>so \<in> set orders. Temperature (Order so) = temp \<and> ID (Order so) = j)
     \<and> j \<in> set (group_keys sh) \<and> map Capacity sh' = map Capacity sh \<and> map Capacity ideal' = map Capacity ideal
     \<and> \<not> Group_IsFull ideal
     \<and> (group_ok sh \<longrightarrow> \<not> Group_IsFull sh' \<and> Suc (length (group_keys sh')) = length (group_keys sh))"
proof (induction orders arbitrary: sh ideal)
  case Nil
  then show ?case by simp
next
  case (Cons so orders)
  show ?case
  proof (cases "Temperature (Order so) = temp")
    case True
    obtain m sh1 ideal1 where mv: "moveFromShelves now (ID (Order so)) sh ideal = (m, sh1, ideal1)"
      by (cases "moveFromShelves now (ID (Order so)) sh ideal") auto
    show ?thesis
    proof (cases m)
      case True
      with mv \<open>Temperature (Order so) = temp\<close> Cons.prems
      have "j = ID (Order so)" "sh' = sh1" "ideal' = ideal1" by simp_all
      with mv True moveFromShelves_moved [of now j sh ideal sh' ideal'] \<open>Temperature (Order so) = temp\<close>
      show ?thesis by simp
    next
      case False
      with mv \<open>Temperature (Order so) = temp\<close> Cons.prems
      have rest: "tryMove_loop now temp orders sh1 ideal1 = (Some j, sh', ideal')" by simp
      from mv False have f: "moveFromShelves now (ID (Order so)) sh ideal = (False, sh1, ideal1)" by simp
      from moveFromShelves_fail [OF f] have same: "ideal1 = ideal" "map keys sh1 = map keys sh"
        "map Capacity sh1 = map Capacity sh" by simp_all
      have ok: "group_ok sh \<Longrightarrow> group_ok sh1"
        using moveFromShelves_fail [OF f] by simp
      from Cons.IH [OF rest] same ok group_keys_cong [OF same(2)] show ?thesis by auto
    qed
  next
    case False
    with Cons.prems(1) have "tryMove_loop now temp orders sh ideal = (Some j, sh', ideal')" by simp
    from Cons.IH [OF this] show ?thesis by auto
  qed
qed

section \<open>Freshness and the atomic move (claims C1, C2, C3)\<close>

text \<open>
  C1 (the code departs from the claim). The claim: a failed \<open>atomicMoveOrder\<close> leaves the
  order in its source unit with its stored freshness and placement timestamp unaltered.
  The code rewrites \<open>PlacedAt\<close> and \<open>Freshness\<close> through the pointer before it looks for a
  destination unit. Evaluated on a shelf unit holding the hot order \<open>a\<close> (freshness 100,
  placed at 0) and a heater group whose only unit is full, at time 10: the call returns
  false, and the order left on the shelf now has freshness 80 and placement time 10.
\<close>

theorem atomicMoveOrder_full_destination_rewrites_order:
  "atomicMoveOrder 10 ''a'' (ex_unit ''Shelf-1'' 1 [ex_stored ''a'' ''hot'' 100 0])
       [ex_unit ''Heater-1'' 1 [ex_stored ''x'' ''hot'' 100 0]]
   = (False,
      ex_unit ''Shelf-1'' 1
        [\<lparr>Order = \<lparr>ID = ''a'', Order.Name = ''meal'', Temperature = ''hot'', Freshness = 80,
                    InitialFreshness = 100\<rparr>, PlacedAt = 10\<rparr>],
      [ex_unit ''Heater-1'' 1 [ex_stored ''x'' ''hot'' 100 0]])"
  by (simp add: atomicMoveOrder_def ex_defs const_defs len_def int64_arith_defs)

text \<open>
  The rewrite is reached through \<open>PlaceOrder\<close>. With the heater holding \<open>x\<close> and the two shelf
  units holding the hot orders \<open>a\<close> and \<open>b\<close>, all placed at time 0, placing the hot order \<open>c\<close>
  at time 10 finds every unit full; no move succeeds and \<open>b\<close> is discarded. The order \<open>a\<close>,
  which never left its shelf unit, is left with placement time 10 and its full initial
  freshness.
\<close>

lemma PlaceOrder_failed_moves_rewrite_shelf_order:
  "ShelfGroup (run (NewFulfillmentSystem ex_cfg)
       [Place 0 (ex_order ''x'' ''hot'' 100), Place 0 (ex_order ''a'' ''hot'' 100),
        Place 0 (ex_order ''b'' ''hot'' 50), Place 10 (ex_order ''c'' ''hot'' 1000)])
   = [ex_unit ''Shelf-1'' 1 [ex_stored ''a'' ''hot'' 100 10],
      ex_unit ''Shelf-2'' 1 [ex_stored ''c'' ''hot'' 1000 10]]"
  by (simp add: eval_defs leastFresh_step_def)

text \<open>
  C2 (as stated, refuted). The claim: a hot or cold order sitting in its heater or cooler
  group decays at the single rate, \<open>nominalFreshness - elapsed\<close>. A hot order of freshness 10
  placed at time 0 into an empty system lands in the heater; at time 4 the code computes
  \<open>10/2 - 4 = 1\<close>, where the claim says \<open>10 - 4 = 6\<close>.
\<close>

theorem RemainingFreshness_in_heater_counterexample:
  "Group_ListOrders (HeaterGroup (PlaceOrder 0 (ex_order ''h'' ''hot'' 10) (NewFulfillmentSystem ex_cfg)))
      = [ex_stored ''h'' ''hot'' 10 0]
   \<and> RemainingFreshness 4 (ex_stored ''h'' ''hot'' 10 0) = 1
   \<and> Freshness (Order (ex_stored ''h'' ''hot'' 10 0)) - (4 - PlacedAt (ex_stored ''h'' ''hot'' 10 0)) = 6"
  by (simp add: PlaceOrder_def NewFulfillmentSystem_def ex_cfg_def ex_defs const_defs upto.simps
      idealGroup_of_def set_idealGroup_def NewStorage_def Storage_IsFull_def Storage_Add_def len_def
      logAction_def Storage_ListOrders_def RemainingFreshness_def signed_divide_int_def
      int64_arith_defs)

text \<open>
  C2 (amended). \<open>RemainingFreshness\<close> does not look at where the order is stored: for every
  stored order, in the heater and cooler groups as on the shelf, with \<open>elapsed\<close> the
  saturating \<open>time.Since(PlacedAt)\<close>, it is \<open>Freshness - elapsed\<close> when the temperature is room
  and \<open>Freshness/2 - elapsed\<close> (division truncating towards zero) for every other
  temperature, computed in \<open>int64\<close> arithmetic, which wraps around. Whenever the elapsed time
  and the exact difference are \<open>int64\<close> values, the result is that exact difference.
\<close>

theorem RemainingFreshness_by_temperature:
  assumes "so \<in> set (Group_ListOrders (HeaterGroup fs)) \<union> set (Group_ListOrders (CoolerGroup fs))
              \<union> set (Group_ListOrders (ShelfGroup fs))"
  shows "RemainingFreshness now so =
           (if Temperature (Order so) = ''room''
            then wrap64 (Freshness (Order so) - sat64 (now - PlacedAt so))
            else wrap64 (wrap64 (Freshness (Order so) sdiv 2) - sat64 (now - PlacedAt so)))
       \<and> (Temperature (Order so) = ''room'' \<and> int64 (now - PlacedAt so)
           \<and> int64 (Freshness (Order so) - (now - PlacedAt so))
         \<longrightarrow> RemainingFreshness now so = Freshness (Order so) - (now - PlacedAt so))
       \<and> (Temperature (Order so) \<noteq> ''room'' \<and> int64 (now - PlacedAt so)
           \<and> int64 (Freshness (Order so)) \<and> int64 (Freshness (Order so) sdiv 2 - (now - PlacedAt so))
         \<longrightarrow> RemainingFreshness now so = Freshness (Order so) sdiv 2 - (now - PlacedAt so))"
proof (intro conjI)
  show "RemainingFreshness now so =
           (if Temperature (Order so) = ''room''
            then wrap64 (Freshness (Order so) - sat64 (now - PlacedAt so))
            else wrap64 (wrap64 (Freshness (Order so) sdiv 2) - sat64 (now - PlacedAt so)))"
    by (simp add: RemainingFreshness_def TEMP_TYPE_ROOM_def Since_def dsub_def ddiv_def)
  show "Temperature (Order so) = ''room'' \<and> int64 (now - PlacedAt so)
           \<and> int64 (Freshness (Order so) - (now - PlacedAt so))
         \<longrightarrow> RemainingFreshness now so = Freshness (Order so) - (now - PlacedAt so)"
    by (simp add: RemainingFreshness_def TEMP_TYPE_ROOM_def Since_def dsub_def wrap64_id sat64_id)
  show "Temperature (Order so) \<noteq> ''room'' \<and> int64 (now - PlacedAt so)
           \<and> int64 (Freshness (Order so)) \<and> int64 (Freshness (Order so) sdiv 2 - (now - PlacedAt so))
         \<longrightarrow> RemainingFreshness now so = Freshness (Order so) sdiv 2 - (now - PlacedAt so)"
    by (simp add: RemainingFreshness_def TEMP_TYPE_ROOM_def Since_def dsub_def ddiv_def wrap64_id
        sat64_id int64_sdiv_2)
qed

theorem RemainingFreshness_by_temperature_witness:
  "ex_stored ''h'' ''hot'' 10 0 \<in> set (Group_ListOrders (HeaterGroup
       (PlaceOrder 0 (ex_order ''h'' ''hot'' 10) (NewFulfillmentSystem ex_cfg))))
   \<and> RemainingFreshness 4 (ex_stored ''h'' ''hot'' 10 0) = 10 sdiv 2 - (4 - 0)
   \<and> RemainingFreshness 4 (ex_stored ''h'' ''hot'' 10 0) = 1"
proof -
  have mem: "ex_stored ''h'' ''hot'' 10 0 \<in> set (Group_ListOrders (HeaterGroup
       (PlaceOrder 0 (ex_order ''h'' ''hot'' 10) (NewFulfillmentSystem ex_cfg))))"
    by (simp add: PlaceOrder_def NewFulfillmentSystem_def ex_cfg_def ex_defs const_defs upto.simps
      idealGroup_of_def set_idealGroup_def NewStorage_def Storage_IsFull_def Storage_Add_def len_def
      logAction_def Storage_ListOrders_def)
  then have "ex_stored ''h'' ''hot'' 10 0 \<in>
      set (Group_ListOrders (HeaterGroup (PlaceOrder 0 (ex_order ''h'' ''hot'' 10) (NewFulfillmentSystem ex_cfg))))
      \<union> set (Group_ListOrders (CoolerGroup (PlaceOrder 0 (ex_order ''h'' ''hot'' 10) (NewFulfillmentSystem ex_cfg))))
      \<union> set (Group_ListOrders (ShelfGroup (PlaceOrder 0 (ex_order ''h'' ''hot'' 10) (NewFulfillmentSystem ex_cfg))))"
    by blast
  from RemainingFreshness_by_temperature [OF this, of 4] mem show ?thesis
    by (simp add: ex_defs int64_def wrap64_def sat64_def signed_divide_int_def)
qed

text \<open>
  The wrap-around is that of the code: a room order whose freshness is 3 above the least
  \<open>int64\<close> value, read 10 nanoseconds after it was placed, has a remaining freshness of
  \<open>2^63 - 7\<close>.
\<close>

lemma RemainingFreshness_wraps:
  "RemainingFreshness 10 (ex_stored ''r'' ''room'' (- 9223372036854775805) 0) = 9223372036854775801"
  by (simp add: RemainingFreshness_def ex_defs const_defs int64_arith_defs)

text \<open>
  C3 (as stated, refuted). The claim: the freshness written by a move is the double-rate
  value \<open>nominalFreshness/2 - elapsed\<close>. For the hot order \<open>a\<close> (initial freshness 100, placed at
  0) moved at time 10 into a heater unit with room, that formula gives 40; the code stores 80.
\<close>

theorem atomicMoveOrder_rewrite_counterexample:
  "atomicMoveOrder 10 ''a'' (ex_unit ''Shelf-1'' 1 [ex_stored ''a'' ''hot'' 100 0]) [ex_unit ''Heater-1'' 1 []]
     = (True, ex_unit ''Shelf-1'' 1 [],
        [ex_unit ''Heater-1'' 1
           [\<lparr>Order = \<lparr>ID = ''a'', Order.Name = ''meal'', Temperature = ''hot'', Freshness = 80,
                       InitialFreshness = 100\<rparr>, PlacedAt = 10\<rparr>]])
   \<and> spec_doubleRateRemaining 10 (ex_stored ''a'' ''hot'' 100 0) = 40"
  by (simp add: atomicMoveOrder_def ex_defs const_defs len_def spec_doubleRateRemaining_def
      signed_divide_int_def int64_arith_defs)

text \<open>
  C3 (amended). For a non-room order found in the source unit, let \<open>newRemaining\<close> be
  \<open>InitialFreshness - 2 * elapsed\<close> computed in \<open>int64\<close> arithmetic (it wraps around), with
  \<open>elapsed\<close> the saturating \<open>time.Since\<close> of the order's current placement timestamp. When
  \<open>newRemaining \<le> 0\<close> the move is refused and nothing changes; when \<open>newRemaining > 0\<close> the
  move succeeds exactly when the destination group is not full, and the order then stored
  in the destination has freshness \<open>newRemaining\<close> and placement time \<open>now\<close>, and is gone from
  the source. Whenever \<open>elapsed\<close>, its double and the exact difference are \<open>int64\<close> values,
  \<open>newRemaining\<close> is exactly \<open>InitialFreshness - 2 * (now - PlacedAt)\<close>.
\<close>

theorem atomicMoveOrder_nonroom:
  assumes "map_of (Orders source) orderID = Some order"
    and "Temperature (Order order) \<noteq> TEMP_TYPE_ROOM"
    and "newRemaining = wrap64 (InitialFreshness (Order order) - wrap64 (2 * sat64 (now - PlacedAt order)))"
  shows "(newRemaining \<le> 0 \<longrightarrow>
            atomicMoveOrder now orderID source destination = (False, source, destination))
       \<and> (0 < newRemaining \<longrightarrow>
            fst (atomicMoveOrder now orderID source destination) = (\<not> Group_IsFull destination)
          \<and> (\<forall>source' destination'.
               atomicMoveOrder now orderID source destination = (True, source', destination') \<longrightarrow>
                 map_of (Orders source') orderID = None
               \<and> (\<exists>d \<in> set destination'. map_of (Orders d) orderID =
                     Some (order\<lparr>PlacedAt := now,
                                 Order := (Order order)\<lparr>Freshness := newRemaining\<rparr>\<rparr>))))
       \<and> (int64 (now - PlacedAt order) \<and> int64 (2 * (now - PlacedAt order))
           \<and> int64 (InitialFreshness (Order order) - 2 * (now - PlacedAt order))
         \<longrightarrow> newRemaining = InitialFreshness (Order order) - 2 * (now - PlacedAt order))"
proof (intro conjI)
  have nr: "dsub (InitialFreshness (Order order)) (dmul 2 (Since now (PlacedAt order))) = newRemaining"
    by (simp add: assms(3) dsub_def dmul_def Since_def)
  show "newRemaining \<le> 0 \<longrightarrow>
            atomicMoveOrder now orderID source destination = (False, source, destination)"
    using assms(1,2) by (simp add: atomicMoveOrder_def nr)
  show "int64 (now - PlacedAt order) \<and> int64 (2 * (now - PlacedAt order))
           \<and> int64 (InitialFreshness (Order order) - 2 * (now - PlacedAt order))
         \<longrightarrow> newRemaining = InitialFreshness (Order order) - 2 * (now - PlacedAt order)"
    by (simp add: assms(3) wrap64_id sat64_id)
  show "0 < newRemaining \<longrightarrow>
            fst (atomicMoveOrder now orderID source destination) = (\<not> Group_IsFull destination)
          \<and> (\<forall>source' destination'.
               atomicMoveOrder now orderID source destination = (True, source', destination') \<longrightarrow>
                 map_of (Orders source') orderID = None
               \<and> (\<exists>d \<in> set destination'. map_of (Orders d) orderID =
                     Some (order\<lparr>PlacedAt := now,
                                 Order := (Order order)\<lparr>Freshness := newRemaining\<rparr>\<rparr>)))"
  proof (intro conjI impI allI)
    assume pos: "0 < newRemaining"
    with assms(1,2) show "fst (atomicMoveOrder now orderID source destination) = (\<not> Group_IsFull destination)"
      by (simp add: atomicMoveOrder_def nr Let_def atomicMove_scan_fst)
  next
    fix source' destination'
    assume pos: "0 < newRemaining"
      and mv: "atomicMoveOrder now orderID source destination = (True, source', destination')"
    define order' where "order' = order\<lparr>PlacedAt := now,
        Order := (Order order)\<lparr>Freshness := newRemaining\<rparr>\<rparr>"
    define source1 where "source1 = source\<lparr>Orders := AList.update orderID order' (Orders source)\<rparr>"
    from assms(1,2) pos mv have scan: "atomicMove_scan orderID order' source1 destination = (True, source', destination')"
      by (simp add: atomicMoveOrder_def nr Let_def order'_def source1_def)
    then have nf: "\<not> Group_IsFull destination"
      using atomicMove_scan_fst [of orderID order' source1 destination] by simp
    from atomicMove_scan_room [OF nf, of orderID order' source1] scan
    obtain pre d post where
      r: "source' = source1\<lparr>Orders := AList.delete orderID (Orders source1)\<rparr>"
         "destination' = pre @ d\<lparr>Orders := AList.update orderID order' (Orders d)\<rparr> # post"
      by auto
    from r(1) show "map_of (Orders source') orderID = None"
      by (simp add: AList.delete_conv')
    from r(2) show "\<exists>d \<in> set destination'. map_of (Orders d) orderID =
        Some (order\<lparr>PlacedAt := now, Order := (Order order)\<lparr>Freshness := newRemaining\<rparr>\<rparr>)"
      unfolding order'_def [symmetric]
      by (intro bexI [of _ "d\<lparr>Orders := AList.update orderID order' (Orders d)\<rparr>"])
         (simp_all add: AList.update_conv')
  qed
qed

theorem atomicMoveOrder_nonroom_witness:
  "map_of (Orders (ex_unit ''Shelf-1'' 1 [ex_stored ''a'' ''hot'' 5 0])) ''a'' = Some (ex_stored ''a'' ''hot'' 5 0)
   \<and> Temperature (Order (ex_stored ''a'' ''hot'' 5 0)) \<noteq> TEMP_TYPE_ROOM
   \<and> atomicMoveOrder 3 ''a'' (ex_unit ''Shelf-1'' 1 [ex_stored ''a'' ''hot'' 5 0]) [ex_unit ''Heater-1'' 1 []]
       = (False, ex_unit ''Shelf-1'' 1 [ex_stored ''a'' ''hot'' 5 0], [ex_unit ''Heater-1'' 1 []])
   \<and> fst (atomicMoveOrder 2 ''a'' (ex_unit ''Shelf-1'' 1 [ex_stored ''a'' ''hot'' 5 0]) [ex_unit ''Heater-1'' 1 []])
   \<and> wrap64 (InitialFreshness (Order (ex_stored ''a'' ''hot'' 5 0))
        - wrap64 (2 * sat64 (2 - PlacedAt (ex_stored ''a'' ''hot'' 5 0)))) = 1"
proof -
  have h1: "map_of (Orders (ex_unit ''Shelf-1'' 1 [ex_stored ''a'' ''hot'' 5 0])) ''a'' = Some (ex_stored ''a'' ''hot'' 5 0)"
    by (simp add: ex_defs)
  have h2: "Temperature (Order (ex_stored ''a'' ''hot'' 5 0)) \<noteq> TEMP_TYPE_ROOM"
    by (simp add: ex_defs const_defs)
  have nf: "\<not> Group_IsFull [ex_unit ''Heater-1'' 1 []]"
    by (simp add: ex_defs Storage_IsFull_def len_def)
  have n3: "wrap64 (InitialFreshness (Order (ex_stored ''a'' ''hot'' 5 0))
        - wrap64 (2 * sat64 (3 - PlacedAt (ex_stored ''a'' ''hot'' 5 0)))) = - 1"
    by (simp add: ex_defs wrap64_def sat64_def)
  have n2: "wrap64 (InitialFreshness (Order (ex_stored ''a'' ''hot'' 5 0))
        - wrap64 (2 * sat64 (2 - PlacedAt (ex_stored ''a'' ''hot'' 5 0)))) = 1"
    by (simp add: ex_defs wrap64_def sat64_def)
  from atomicMoveOrder_nonroom [OF h1 h2 n3 [symmetric], of "[ex_unit ''Heater-1'' 1 []]"]
       atomicMoveOrder_nonroom [OF h1 h2 n2 [symmetric], of "[ex_unit ''Heater-1'' 1 []]"] h1 h2 nf n2
  show ?thesis by (simp add: ex_defs int64_def)
qed

text \<open>
  The wrap-around is that of the code: for a hot order whose initial freshness is 5 above
  the least \<open>int64\<close> value, moved 10 nanoseconds after it was placed, the difference wraps
  to \<open>2^63 - 15\<close>, which is positive, and the order is moved with that freshness.
\<close>

lemma atomicMoveOrder_wraps:
  "atomicMoveOrder 10 ''a'' (ex_unit ''Shelf-1'' 1 [ex_stored ''a'' ''hot'' (- 9223372036854775803) 0])
       [ex_unit ''Heater-1'' 1 []]
     = (True, ex_unit ''Shelf-1'' 1 [],
        [ex_unit ''Heater-1'' 1
           [\<lparr>Order = \<lparr>ID = ''a'', Order.Name = ''meal'', Temperature = ''hot'',
                       Freshness = 9223372036854775793,
                       InitialFreshness = - 9223372036854775803\<rparr>, PlacedAt = 10\<rparr>]])"
  by (simp add: atomicMoveOrder_def ex_defs const_defs len_def int64_arith_defs)

lemma logAction_simps [simp]:
  "Actions (logAction fs i k now) = Actions fs @ [\<lparr>Timestamp = now div 1000, OrderID = i, Action = k\<rparr>]"
  "HeaterGroup (logAction fs i k now) = HeaterGroup fs"
  "CoolerGroup (logAction fs i k now) = CoolerGroup fs"
  "ShelfGroup (logAction fs i k now) = ShelfGroup fs"
  by (simp_all add: logAction_def)

lemma all_keys_logAction [simp]: "all_keys (logAction fs i k now) = all_keys fs"
  by (simp add: all_keys_def)

lemma sys_ok_logAction [simp]: "sys_ok (logAction fs i k now) = sys_ok fs"
  by (simp add: sys_ok_def)

text \<open>The ways a call of \<open>tryMoveFromShelfGroup\<close> can end.\<close>

lemma tryMoveFromShelfGroup_result:
  assumes "tryMoveFromShelfGroup now temp fs = (m, fs')"
  shows "(temp \<noteq> TEMP_TYPE_HOT \<and> temp \<noteq> TEMP_TYPE_COLD \<and> \<not> m \<and> fs' = fs)
    \<or> (\<exists>sh' ideal'. tryMove_loop now temp (Group_ListOrders (ShelfGroup fs)) (ShelfGroup fs) (HeaterGroup fs)
            = (None, sh', ideal') \<and> temp = TEMP_TYPE_HOT \<and> \<not> m \<and>
          fs' = fs\<lparr>ShelfGroup := sh', HeaterGroup := ideal'\<rparr>)
    \<or> (\<exists>j sh' ideal'. tryMove_loop now temp (Group_ListOrders (ShelfGroup fs)) (ShelfGroup fs) (HeaterGroup fs)
            = (Some j, sh', ideal') \<and> temp = TEMP_TYPE_HOT \<and> m \<and>
          fs' = logAction (fs\<lparr>ShelfGroup := sh', HeaterGroup := ideal'\<rparr>) j ACTION_TYPE_MOVE now)
    \<or> (\<exists>sh' ideal'. tryMove_loop now temp (Group_ListOrders (ShelfGroup fs)) (ShelfGroup fs) (CoolerGroup fs)
            = (None, sh', ideal') \<and> temp = TEMP_TYPE_COLD \<and> \<not> m \<and>
          fs' = fs\<lparr>ShelfGroup := sh', CoolerGroup := ideal'\<rparr>)
    \<or> (\<exists>j sh' ideal'. tryMove_loop now temp (Group_ListOrders (ShelfGroup fs)) (ShelfGroup fs) (CoolerGroup fs)
            = (Some j, sh', ideal') \<and> temp = TEMP_TYPE_COLD \<and> m \<and>
          fs' = logAction (fs\<lparr>ShelfGroup := sh', CoolerGroup := ideal'\<rparr>) j ACTION_TYPE_MOVE now)"
  using assms
  by (auto simp: tryMoveFromShelfGroup_def tryMoveFromShelfGroup_listed_def
      split: if_splits prod.splits option.splits)

lemma tryMoveFromShelfGroup_ok:
  assumes "tryMoveFromShelfGroup now temp fs = (m, fs')" and "sys_ok fs"
  shows "sys_ok fs'"
  using tryMoveFromShelfGroup_result [OF assms(1)] assms(2)
  by (auto simp: sys_ok_def dest: tryMove_loop_ok)

lemma tryMoveFromShelfGroup_shelf_ok:
  assumes "tryMoveFromShelfGroup now temp fs = (m, fs')" and "group_ok (ShelfGroup fs)"
  shows "group_ok (ShelfGroup fs')"
  using tryMoveFromShelfGroup_result [OF assms(1)] assms(2)
  by (auto dest: tryMove_loop_shelf_ok)

lemma tryMoveFromShelfGroup_keys:
  assumes "tryMoveFromShelfGroup now temp fs = (m, fs')"
  shows "mset (all_keys fs') \<subseteq># mset (all_keys fs)"
  using tryMoveFromShelfGroup_result [OF assms]
  by (elim disjE exE conjE) (auto simp: all_keys_def ac_simps dest!: tryMove_loop_keys)

lemma tryMoveFromShelfGroup_fail:
  assumes "tryMoveFromShelfGroup now temp fs = (False, fs')"
  shows "Actions fs' = Actions fs \<and> HeaterGroup fs' = HeaterGroup fs \<and> CoolerGroup fs' = CoolerGroup fs
       \<and> map keys (ShelfGroup fs') = map keys (ShelfGroup fs)
       \<and> map Capacity (ShelfGroup fs') = map Capacity (ShelfGroup fs)
       \<and> (group_ok (ShelfGroup fs) \<longrightarrow> group_ok (ShelfGroup fs'))"
  using tryMoveFromShelfGroup_result [OF assms]
  by (elim disjE exE conjE) (auto dest!: tryMove_loop_fail)

lemma tryMoveFromShelfGroup_moved:
  assumes "tryMoveFromShelfGroup now temp fs = (True, fs')"
  shows "(\<exists>so \<in> set (Group_ListOrders (ShelfGroup fs)). Temperature (Order so) = temp \<and>
            Actions fs' = Actions fs @ [\<lparr>Timestamp = now div 1000, OrderID = ID (Order so), Action = ACTION_TYPE_MOVE\<rparr>])
       \<and> map Capacity (ShelfGroup fs') = map Capacity (ShelfGroup fs)
       \<and> (group_ok (ShelfGroup fs) \<longrightarrow>
            \<not> Group_IsFull (ShelfGroup fs') \<and> Suc (length (group_keys (ShelfGroup fs'))) = length (group_keys (ShelfGroup fs)))"
  using tryMoveFromShelfGroup_result [OF assms]
  by (elim disjE exE conjE) (auto dest!: tryMove_loop_moved)

subsection \<open>GetLeastFreshOrder\<close>

lemma leastFresh_step_simps [simp]:
  "leastFresh_step now None x = Some x"
  "leastFresh_step now (Some a) x =
     (if RemainingFreshness now x < RemainingFreshness now a then Some x else Some a)"
  by (simp_all add: leastFresh_step_def)

lemma leastFresh_foldl_Some:
  "foldl (leastFresh_step now) (Some a) xs = Some c \<Longrightarrow>
     (c = a \<and> (\<forall>x \<in> set xs. RemainingFreshness now a \<le> RemainingFreshness now x))
   \<or> (\<exists>pre post. xs = pre @ c # post \<and> RemainingFreshness now c < RemainingFreshness now a
         \<and> (\<forall>x \<in> set pre. RemainingFreshness now c < RemainingFreshness now x)
         \<and> (\<forall>x \<in> set post. RemainingFreshness now c \<le> RemainingFreshness now x))"
proof (induction xs arbitrary: a)
  case Nil
  then show ?case by simp
next
  case (Cons x xs)
  show ?case
  proof (cases "RemainingFreshness now x < RemainingFreshness now a")
    case True
    with Cons.prems have "foldl (leastFresh_step now) (Some x) xs = Some c"
      by simp
    from Cons.IH [OF this] show ?thesis
    proof (elim disjE exE conjE)
      assume "c = x" "\<forall>y \<in> set xs. RemainingFreshness now x \<le> RemainingFreshness now y"
      with True have "x # xs = [] @ c # xs \<and> RemainingFreshness now c < RemainingFreshness now a
         \<and> (\<forall>y \<in> set []. RemainingFreshness now c < RemainingFreshness now y)
         \<and> (\<forall>y \<in> set xs. RemainingFreshness now c \<le> RemainingFreshness now y)"
        by simp
      then show ?thesis by blast
    next
      fix pre post
      assume "xs = pre @ c # post" "RemainingFreshness now c < RemainingFreshness now x"
        "\<forall>y \<in> set pre. RemainingFreshness now c < RemainingFreshness now y"
        "\<forall>y \<in> set post. RemainingFreshness now c \<le> RemainingFreshness now y"
      with True have "x # xs = (x # pre) @ c # post \<and> RemainingFreshness now c < RemainingFreshness now a
         \<and> (\<forall>y \<in> set (x # pre). RemainingFreshness now c < RemainingFreshness now y)
         \<and> (\<forall>y \<in> set post. RemainingFreshness now c \<le> RemainingFreshness now y)"
        by auto
      then show ?thesis by blast
    qed
  next
    case False
    with Cons.prems have "foldl (leastFresh_step now) (Some a) xs = Some c"
      by simp
    from Cons.IH [OF this] show ?thesis
    proof (elim disjE exE conjE)
      assume "c = a" "\<forall>y \<in> set xs. RemainingFreshness now a \<le> RemainingFreshness now y"
      with False show ?thesis by auto
    next
      fix pre post
      assume "xs = pre @ c # post" "RemainingFreshness now c < RemainingFreshness now a"
        "\<forall>y \<in> set pre. RemainingFreshness now c < RemainingFreshness now y"
        "\<forall>y \<in> set post. RemainingFreshness now c \<le> RemainingFreshness now y"
      with False have "x # xs = (x # pre) @ c # post \<and> RemainingFreshness now c < RemainingFreshness now a
         \<and> (\<forall>y \<in> set (x # pre). RemainingFreshness now c < RemainingFreshness now y)
         \<and> (\<forall>y \<in> set post. RemainingFreshness now c \<le> RemainingFreshness now y)"
        by auto
      then show ?thesis by blast
    qed
  qed
qed

lemma leastFresh_foldl_not_None: "foldl (leastFresh_step now) (Some a) xs \<noteq> None"
  by (induction xs arbitrary: a) auto

lemma GetLeastFreshOrder_None: "GetLeastFreshOrder now g = None \<longleftrightarrow> Group_ListOrders g = []"
  by (cases "Group_ListOrders g")
     (simp_all add: GetLeastFreshOrder_def GetLeastFreshOrder_listed_def leastFresh_foldl_not_None)

lemma GetLeastFreshOrder_Some:
  assumes "GetLeastFreshOrder now g = Some c"
  shows "\<exists>pre post. Group_ListOrders g = pre @ c # post
         \<and> (\<forall>x \<in> set pre. RemainingFreshness now c < RemainingFreshness now x)
         \<and> (\<forall>x \<in> set post. RemainingFreshness now c \<le> RemainingFreshness now x)"
proof (cases "Group_ListOrders g")
  case Nil
  with assms show ?thesis by (simp add: GetLeastFreshOrder_def GetLeastFreshOrder_listed_def)
next
  case (Cons a xs)
  with assms have "foldl (leastFresh_step now) (Some a) xs = Some c"
    by (simp add: GetLeastFreshOrder_def GetLeastFreshOrder_listed_def)
  from leastFresh_foldl_Some [OF this] show ?thesis
  proof (elim disjE exE conjE)
    assume "c = a" "\<forall>x \<in> set xs. RemainingFreshness now a \<le> RemainingFreshness now x"
    with Cons have "Group_ListOrders g = [] @ c # xs
         \<and> (\<forall>x \<in> set []. RemainingFreshness now c < RemainingFreshness now x)
         \<and> (\<forall>x \<in> set xs. RemainingFreshness now c \<le> RemainingFreshness now x)"
      by simp
    then show ?thesis by blast
  next
    fix pre post
    assume "xs = pre @ c # post" "RemainingFreshness now c < RemainingFreshness now a"
      "\<forall>x \<in> set pre. RemainingFreshness now c < RemainingFreshness now x"
      "\<forall>x \<in> set post. RemainingFreshness now c \<le> RemainingFreshness now x"
    with Cons have "Group_ListOrders g = (a # pre) @ c # post
         \<and> (\<forall>x \<in> set (a # pre). RemainingFreshness now c < RemainingFreshness now x)
         \<and> (\<forall>x \<in> set post. RemainingFreshness now c \<le> RemainingFreshness now x)"
      by simp
    then show ?thesis by blast
  qed
qed

lemma GetLeastFreshOrder_min:
  assumes "GetLeastFreshOrder now g = Some c"
  shows "c \<in> set (Group_ListOrders g) \<and> (\<forall>x \<in> set (Group_ListOrders g). RemainingFreshness now c \<le> RemainingFreshness now x)"
  using GetLeastFreshOrder_Some [OF assms] by (elim exE conjE) (simp, fastforce)

subsection \<open>discardOrderFromShelfGroup\<close>

lemma discardOrderFromShelfGroup_result:
  "(GetLeastFreshOrder now (ShelfGroup fs) = None \<and> discardOrderFromShelfGroup now fs = fs)
  \<or> (\<exists>c fs'. GetLeastFreshOrder now (ShelfGroup fs) = Some c \<and>
        tryMoveFromShelfGroup now (Temperature (Order c)) fs = (True, fs') \<and>
        discardOrderFromShelfGroup now fs = fs')
  \<or> (\<exists>c fs'. GetLeastFreshOrder now (ShelfGroup fs) = Some c \<and>
        tryMoveFromShelfGroup now (Temperature (Order c)) fs = (False, fs') \<and>
        snd (Group_Remove (ShelfGroup fs') (ID (Order c))) \<noteq> None \<and>
        discardOrderFromShelfGroup now fs =
          logAction (fs'\<lparr>ShelfGroup := fst (Group_Remove (ShelfGroup fs') (ID (Order c)))\<rparr>)
            (ID (Order c)) ACTION_TYPE_DISCARD now)
  \<or> (\<exists>c fs'. GetLeastFreshOrder now (ShelfGroup fs) = Some c \<and>
        tryMoveFromShelfGroup now (Temperature (Order c)) fs = (False, fs') \<and>
        snd (Group_Remove (ShelfGroup fs') (ID (Order c))) = None \<and>
        discardOrderFromShelfGroup now fs =
          fs'\<lparr>ShelfGroup := fst (Group_Remove (ShelfGroup fs') (ID (Order c)))\<rparr>)"
  by (auto simp: discardOrderFromShelfGroup_def discardOrderFromShelfGroup_listed_def
      GetLeastFreshOrder_def tryMoveFromShelfGroup_def split: option.splits prod.splits bool.splits)

lemma Group_Remove_snd: "snd (Group_Remove g i) \<noteq> None \<longleftrightarrow> i \<in> set (group_keys g)"
proof (cases "i \<in> set (group_keys g)")
  case True
  from Group_Remove_Some [OF True] True show ?thesis by auto
next
  case False
  then show ?thesis by (simp add: Group_Remove_None)
qed

lemma mset_removeAll_distinct: "distinct xs \<Longrightarrow> mset (removeAll k xs) = mset xs - {#k#}"
  by (simp add: distinct_remove1_removeAll [symmetric])

lemma Group_Remove_mset:
  assumes "group_ok g" and "i \<in> set (group_keys g)"
  shows "mset (group_keys (fst (Group_Remove g i))) = mset (group_keys g) - {#i#}"
proof -
  from Group_Remove_Some [OF assms(2)] obtain pre s post so where
    g: "g = pre @ s # post" and so: "map_of (Orders s) i = Some so"
    and r: "Group_Remove g i = (pre @ s\<lparr>Orders := AList.delete i (Orders s)\<rparr> # post, Some so)"
    by blast
  from assms(1) g have "distinct (keys s)" by (simp add: unit_ok_def)
  then have k: "mset (keys (s\<lparr>Orders := AList.delete i (Orders s)\<rparr>)) = mset (keys s) - {#i#}"
    using mset_removeAll_distinct [of "keys s" i]
    by (simp add: keys_def AList.delete_keys del: mset_map)
  from so have mem: "i \<in># mset (keys s)" by (simp add: in_keys_iff)
  from r have "mset (group_keys (fst (Group_Remove g i)))
      = mset (group_keys pre) + (mset (keys s) - {#i#}) + mset (group_keys post)"
    by (simp add: k del: mset_map)
  also have "\<dots> = (mset (group_keys pre) + mset (keys s) + mset (group_keys post)) - {#i#}"
    using mem by (simp del: mset_map)
  finally show ?thesis by (simp add: g ac_simps)
qed

lemma ListOrders_in_keys:
  "group_ok g \<Longrightarrow> so \<in> set (Group_ListOrders g) \<Longrightarrow> ID (Order so) \<in> set (group_keys g)"
proof (induction g)
  case Nil
  then show ?case by simp
next
  case (Cons s g)
  have "so \<in> set (Storage_ListOrders s) \<Longrightarrow> ID (Order so) \<in> set (keys s)"
    using Cons.prems(1)
    by (auto simp: Storage_ListOrders_def keys_def unit_ok_def list_all_iff intro!: rev_image_eqI)
  with Cons show ?case by auto
qed

lemma length_ListOrders: "length (Group_ListOrders g) = length (group_keys g)"
  by (induction g) (simp_all add: Storage_ListOrders_def keys_def)

lemma full_group_not_empty:
  assumes "Group_IsFull g" and "s \<in> set g" and "1 \<le> Capacity s"
  shows "Group_ListOrders g \<noteq> []"
proof -
  from assms(1,2) have "Storage_IsFull s" by (simp add: Group_IsFull_iff list_all_iff)
  with assms(3) have "Orders s \<noteq> []" by (auto simp: Storage_IsFull_def len_def)
  with assms(2) show ?thesis
    by (auto simp: Group_ListOrders_def Storage_ListOrders_def)
qed

subsection \<open>discardOrderFromShelfGroup\<close>

lemma sys_ok_shelf_update: "sys_ok fs \<Longrightarrow> group_ok g \<Longrightarrow> sys_ok (fs\<lparr>ShelfGroup := g\<rparr>)"
  by (simp add: sys_ok_def)

lemma discardOrderFromShelfGroup_ok:
  assumes "sys_ok fs"
  shows "sys_ok (discardOrderFromShelfGroup now fs)"
  using discardOrderFromShelfGroup_result [of now fs]
proof (elim disjE exE conjE)
  assume "discardOrderFromShelfGroup now fs = fs"
  with assms show ?thesis by simp
next
  fix c fs'
  assume "tryMoveFromShelfGroup now (Temperature (Order c)) fs = (True, fs')"
    "discardOrderFromShelfGroup now fs = fs'"
  with assms show ?thesis by (simp add: tryMoveFromShelfGroup_ok)
next
  fix c fs'
  assume a: "tryMoveFromShelfGroup now (Temperature (Order c)) fs = (False, fs')"
    "discardOrderFromShelfGroup now fs =
          logAction (fs'\<lparr>ShelfGroup := fst (Group_Remove (ShelfGroup fs') (ID (Order c)))\<rparr>)
            (ID (Order c)) ACTION_TYPE_DISCARD now"
  from tryMoveFromShelfGroup_ok [OF a(1) assms] have "sys_ok fs'" .
  then show ?thesis
    unfolding a(2) by (simp add: sys_ok_def group_ok_Group_Remove)
next
  fix c fs'
  assume a: "tryMoveFromShelfGroup now (Temperature (Order c)) fs = (False, fs')"
    "discardOrderFromShelfGroup now fs =
          fs'\<lparr>ShelfGroup := fst (Group_Remove (ShelfGroup fs') (ID (Order c)))\<rparr>"
  from tryMoveFromShelfGroup_ok [OF a(1) assms] have "sys_ok fs'" .
  then show ?thesis
    unfolding a(2) by (simp add: sys_ok_def group_ok_Group_Remove)
qed

lemma discardOrderFromShelfGroup_shelf_ok:
  assumes "group_ok (ShelfGroup fs)"
  shows "group_ok (ShelfGroup (discardOrderFromShelfGroup now fs))"
  using discardOrderFromShelfGroup_result [of now fs]
proof (elim disjE exE conjE)
  assume "discardOrderFromShelfGroup now fs = fs"
  with assms show ?thesis by simp
next
  fix c fs'
  assume "tryMoveFromShelfGroup now (Temperature (Order c)) fs = (True, fs')"
    "discardOrderFromShelfGroup now fs = fs'"
  with assms show ?thesis by (simp add: tryMoveFromShelfGroup_shelf_ok)
next
  fix c fs'
  assume a: "tryMoveFromShelfGroup now (Temperature (Order c)) fs = (False, fs')"
    "discardOrderFromShelfGroup now fs =
          logAction (fs'\<lparr>ShelfGroup := fst (Group_Remove (ShelfGroup fs') (ID (Order c)))\<rparr>)
            (ID (Order c)) ACTION_TYPE_DISCARD now"
  from tryMoveFromShelfGroup_shelf_ok [OF a(1) assms] show ?thesis
    unfolding a(2) by (simp add: group_ok_Group_Remove)
next
  fix c fs'
  assume a: "tryMoveFromShelfGroup now (Temperature (Order c)) fs = (False, fs')"
    "discardOrderFromShelfGroup now fs =
          fs'\<lparr>ShelfGroup := fst (Group_Remove (ShelfGroup fs') (ID (Order c)))\<rparr>"
  from tryMoveFromShelfGroup_shelf_ok [OF a(1) assms] show ?thesis
    unfolding a(2) by (simp add: group_ok_Group_Remove)
qed

lemma all_keys_shelf_remove:
  "mset (all_keys (fs\<lparr>ShelfGroup := fst (Group_Remove (ShelfGroup fs) i)\<rparr>)) \<subseteq># mset (all_keys fs)"
  using Group_Remove_keys [of "ShelfGroup fs" i]
  by (simp add: all_keys_def)

lemma discardOrderFromShelfGroup_keys:
  "mset (all_keys (discardOrderFromShelfGroup now fs)) \<subseteq># mset (all_keys fs)"
  using discardOrderFromShelfGroup_result [of now fs]
proof (elim disjE exE conjE)
  assume "discardOrderFromShelfGroup now fs = fs"
  then show ?thesis by simp
next
  fix c fs'
  assume "tryMoveFromShelfGroup now (Temperature (Order c)) fs = (True, fs')"
    "discardOrderFromShelfGroup now fs = fs'"
  then show ?thesis by (simp add: tryMoveFromShelfGroup_keys)
next
  fix c fs'
  assume a: "tryMoveFromShelfGroup now (Temperature (Order c)) fs = (False, fs')"
    "discardOrderFromShelfGroup now fs =
          logAction (fs'\<lparr>ShelfGroup := fst (Group_Remove (ShelfGroup fs') (ID (Order c)))\<rparr>)
            (ID (Order c)) ACTION_TYPE_DISCARD now"
  have "mset (all_keys (discardOrderFromShelfGroup now fs)) \<subseteq># mset (all_keys fs')"
    unfolding a(2) using all_keys_shelf_remove [of fs' "ID (Order c)"] by simp
  then show ?thesis using tryMoveFromShelfGroup_keys [OF a(1)] by (rule subset_mset.trans)
next
  fix c fs'
  assume a: "tryMoveFromShelfGroup now (Temperature (Order c)) fs = (False, fs')"
    "discardOrderFromShelfGroup now fs =
          fs'\<lparr>ShelfGroup := fst (Group_Remove (ShelfGroup fs') (ID (Order c)))\<rparr>"
  have "mset (all_keys (discardOrderFromShelfGroup now fs)) \<subseteq># mset (all_keys fs')"
    unfolding a(2) using all_keys_shelf_remove [of fs' "ID (Order c)"] by simp
  then show ?thesis using tryMoveFromShelfGroup_keys [OF a(1)] by (rule subset_mset.trans)
qed

text \<open>What a discard call appends to the log: nothing, one move, or one discard.\<close>

lemma discardOrderFromShelfGroup_actions:
  "\<exists>new. Actions (discardOrderFromShelfGroup now fs) = Actions fs @ new \<and> length new \<le> 1
     \<and> list_all (\<lambda>a. Action a = ACTION_TYPE_MOVE \<or> Action a = ACTION_TYPE_DISCARD) new"
  using discardOrderFromShelfGroup_result [of now fs]
proof (elim disjE exE conjE)
  assume "discardOrderFromShelfGroup now fs = fs"
  then show ?thesis by simp
next
  fix c fs'
  assume a: "tryMoveFromShelfGroup now (Temperature (Order c)) fs = (True, fs')"
    "discardOrderFromShelfGroup now fs = fs'"
  from tryMoveFromShelfGroup_moved [OF a(1)] a(2) show ?thesis by auto
next
  fix c fs'
  assume a: "tryMoveFromShelfGroup now (Temperature (Order c)) fs = (False, fs')"
    "discardOrderFromShelfGroup now fs =
          logAction (fs'\<lparr>ShelfGroup := fst (Group_Remove (ShelfGroup fs') (ID (Order c)))\<rparr>)
            (ID (Order c)) ACTION_TYPE_DISCARD now"
  from tryMoveFromShelfGroup_fail [OF a(1)] show ?thesis unfolding a(2) by simp
next
  fix c fs'
  assume a: "tryMoveFromShelfGroup now (Temperature (Order c)) fs = (False, fs')"
    "discardOrderFromShelfGroup now fs =
          fs'\<lparr>ShelfGroup := fst (Group_Remove (ShelfGroup fs') (ID (Order c)))\<rparr>"
  from tryMoveFromShelfGroup_fail [OF a(1)] show ?thesis unfolding a(2) by simp
qed

lemma discardOrderFromShelfGroup_Capacity:
  "map Capacity (ShelfGroup (discardOrderFromShelfGroup now fs)) = map Capacity (ShelfGroup fs)"
  using discardOrderFromShelfGroup_result [of now fs]
proof (elim disjE exE conjE)
  assume "discardOrderFromShelfGroup now fs = fs"
  then show ?thesis by simp
next
  fix c fs'
  assume a: "tryMoveFromShelfGroup now (Temperature (Order c)) fs = (True, fs')"
    "discardOrderFromShelfGroup now fs = fs'"
  from tryMoveFromShelfGroup_moved [OF a(1)] a(2) show ?thesis by simp
next
  fix c fs'
  assume a: "tryMoveFromShelfGroup now (Temperature (Order c)) fs = (False, fs')"
    "discardOrderFromShelfGroup now fs =
          logAction (fs'\<lparr>ShelfGroup := fst (Group_Remove (ShelfGroup fs') (ID (Order c)))\<rparr>)
            (ID (Order c)) ACTION_TYPE_DISCARD now"
  from tryMoveFromShelfGroup_fail [OF a(1)] show ?thesis unfolding a(2) by simp
next
  fix c fs'
  assume a: "tryMoveFromShelfGroup now (Temperature (Order c)) fs = (False, fs')"
    "discardOrderFromShelfGroup now fs =
          fs'\<lparr>ShelfGroup := fst (Group_Remove (ShelfGroup fs') (ID (Order c)))\<rparr>"
  from tryMoveFromShelfGroup_fail [OF a(1)] show ?thesis unfolding a(2) by simp
qed

text \<open>On a well-formed full shelf with a unit of capacity at least one, a discard call frees a slot.\<close>

lemma discardOrderFromShelfGroup_frees:
  assumes ok: "group_ok (ShelfGroup fs)" and full: "Group_IsFull (ShelfGroup fs)"
    and cap: "s \<in> set (ShelfGroup fs)" "1 \<le> Capacity s"
  shows "\<not> Group_IsFull (ShelfGroup (discardOrderFromShelfGroup now fs))"
proof -
  from full_group_not_empty [OF full cap] have ne: "GetLeastFreshOrder now (ShelfGroup fs) \<noteq> None"
    by (simp add: GetLeastFreshOrder_None)
  from discardOrderFromShelfGroup_result [of now fs] ne show ?thesis
  proof (elim disjE exE conjE)
    fix c fs'
    assume a: "tryMoveFromShelfGroup now (Temperature (Order c)) fs = (True, fs')"
      "discardOrderFromShelfGroup now fs = fs'"
    from tryMoveFromShelfGroup_moved [OF a(1)] ok a(2) show ?thesis by simp
  next
    fix c fs'
    assume a: "GetLeastFreshOrder now (ShelfGroup fs) = Some c"
      "tryMoveFromShelfGroup now (Temperature (Order c)) fs = (False, fs')"
      "discardOrderFromShelfGroup now fs =
          logAction (fs'\<lparr>ShelfGroup := fst (Group_Remove (ShelfGroup fs') (ID (Order c)))\<rparr>)
            (ID (Order c)) ACTION_TYPE_DISCARD now"
    from GetLeastFreshOrder_min [OF a(1)] ok have "ID (Order c) \<in> set (group_keys (ShelfGroup fs))"
      by (simp add: ListOrders_in_keys)
    moreover from tryMoveFromShelfGroup_fail [OF a(2)] ok
    have "group_keys (ShelfGroup fs') = group_keys (ShelfGroup fs)" "group_ok (ShelfGroup fs')"
      by (simp_all add: group_keys_def)
    ultimately show ?thesis
      unfolding a(3) by (simp add: Group_Remove_not_full)
  next
    fix c fs'
    assume a: "GetLeastFreshOrder now (ShelfGroup fs) = Some c"
      "tryMoveFromShelfGroup now (Temperature (Order c)) fs = (False, fs')"
      "snd (Group_Remove (ShelfGroup fs') (ID (Order c))) = None"
    from GetLeastFreshOrder_min [OF a(1)] ok have "ID (Order c) \<in> set (group_keys (ShelfGroup fs))"
      by (simp add: ListOrders_in_keys)
    moreover from tryMoveFromShelfGroup_fail [OF a(2)]
    have "group_keys (ShelfGroup fs') = group_keys (ShelfGroup fs)"
      by (simp add: group_keys_def)
    ultimately have "ID (Order c) \<in> set (group_keys (ShelfGroup fs'))"
      by simp
    then have "snd (Group_Remove (ShelfGroup fs') (ID (Order c))) \<noteq> None"
      by (rule Group_Remove_snd [THEN iffD2])
    with a(3) show ?thesis by simp
  qed simp
qed

section \<open>The example runs\<close>

lemma ex_two_hot_on_shelf_eq:
  "ex_two_hot_on_shelf =
     \<lparr>CoolerGroup = [ex_unit ''Cooler-1'' 1 []],
      HeaterGroup = [ex_unit ''Heater-1'' 1 []],
      ShelfGroup = [ex_unit ''Shelf-1'' 1 [ex_stored ''a'' ''hot'' 100 0],
                    ex_unit ''Shelf-2'' 1 [ex_stored ''b'' ''hot'' 50 0]],
      Actions = [\<lparr>Timestamp = 0, OrderID = ''x'', Action = ''place''\<rparr>,
                 \<lparr>Timestamp = 0, OrderID = ''a'', Action = ''place''\<rparr>,
                 \<lparr>Timestamp = 0, OrderID = ''b'', Action = ''place''\<rparr>,
                 \<lparr>Timestamp = 0, OrderID = ''x'', Action = ''pickup''\<rparr>]\<rparr>"
  unfolding ex_two_hot_on_shelf_def
  by (simp add: eval_defs)

subsection \<open>PlaceOrder\<close>

lemma set_idealGroup_same [simp]: "set_idealGroup temp (idealGroup_of temp fs) fs = fs"
  by (simp add: set_idealGroup_def idealGroup_of_def)

lemma shelf_update_same [simp]: "fs\<lparr>ShelfGroup := ShelfGroup fs\<rparr> = fs"
  by simp

lemma Group_Add_eq: "Group_Add g so = (fst (Group_Add g so), \<not> Group_IsFull g)"
  using Group_Add_snd [of g so] by (cases "Group_Add g so") simp

text \<open>The tail of \<open>PlaceOrder\<close>, by whether the shelf is full when it starts.\<close>

lemma discard_then_add_unfold:
  "discard_then_add now order so fs =
     (let fs1 = (if Group_IsFull (ShelfGroup fs) then discardOrderFromShelfGroup now fs else fs) in
      if \<not> Group_IsFull (ShelfGroup fs1)
      then logAction (fs1\<lparr>ShelfGroup := fst (Group_Add (ShelfGroup fs1) so)\<rparr>) (ID order) ACTION_TYPE_PLACE now
      else fs1)"
proof -
  define fs1 where "fs1 = (if Group_IsFull (ShelfGroup fs) then discardOrderFromShelfGroup now fs else fs)"
  have "discard_then_add now order so fs =
      (case Group_Add (ShelfGroup fs1) so of
         (shelves', True) \<Rightarrow> logAction (fs1\<lparr>ShelfGroup := shelves'\<rparr>) (ID order) ACTION_TYPE_PLACE now
       | (shelves', False) \<Rightarrow> fs1\<lparr>ShelfGroup := shelves'\<rparr>)"
    by (simp add: discard_then_add_def fs1_def Let_def)
  also have "\<dots> = (if \<not> Group_IsFull (ShelfGroup fs1)
      then logAction (fs1\<lparr>ShelfGroup := fst (Group_Add (ShelfGroup fs1) so)\<rparr>) (ID order) ACTION_TYPE_PLACE now
      else fs1)"
    by (subst Group_Add_eq) (simp add: Group_Add_full)
  finally show ?thesis by (simp add: fs1_def Let_def)
qed

text \<open>\<open>PlaceOrder\<close> for an order that is neither hot nor cold.\<close>

lemma PlaceOrder_room:
  assumes "Temperature order \<noteq> TEMP_TYPE_HOT" and "Temperature order \<noteq> TEMP_TYPE_COLD"
  shows "PlaceOrder now order fs =
     (if \<not> Group_IsFull (ShelfGroup fs)
      then logAction (fs\<lparr>ShelfGroup := fst (Group_Add (ShelfGroup fs) \<lparr>Order = order, PlacedAt = now\<rparr>)\<rparr>)
             (ID order) ACTION_TYPE_PLACE now
      else discard_then_add now order \<lparr>Order = order, PlacedAt = now\<rparr> fs)"
proof (cases "Group_IsFull (ShelfGroup fs)")
  case True
  with assms show ?thesis
    by (simp add: PlaceOrder_def Let_def Group_Add_full)
next
  case False
  then obtain g' where "Group_Add (ShelfGroup fs) \<lparr>Order = order, PlacedAt = now\<rparr> = (g', True)"
    using Group_Add_eq [of "ShelfGroup fs" "\<lparr>Order = order, PlacedAt = now\<rparr>"] by simp
  with assms False show ?thesis
    by (simp add: PlaceOrder_def Let_def)
qed

text \<open>\<open>PlaceOrder\<close> for a hot or cold order.\<close>

lemma PlaceOrder_ideal:
  assumes "Temperature order = TEMP_TYPE_HOT \<or> Temperature order = TEMP_TYPE_COLD"
    and "\<not> Group_IsFull (idealGroup_of (Temperature order) fs)"
  shows "PlaceOrder now order fs =
     logAction (set_idealGroup (Temperature order)
         (fst (Group_Add (idealGroup_of (Temperature order) fs) \<lparr>Order = order, PlacedAt = now\<rparr>)) fs)
       (ID order) ACTION_TYPE_PLACE now"
proof -
  from assms(2) obtain g' where "Group_Add (idealGroup_of (Temperature order) fs) \<lparr>Order = order, PlacedAt = now\<rparr> = (g', True)"
    using Group_Add_eq [of "idealGroup_of (Temperature order) fs" "\<lparr>Order = order, PlacedAt = now\<rparr>"] by simp
  with assms(1) show ?thesis
    by (simp add: PlaceOrder_def Let_def)
qed

lemma PlaceOrder_shelf:
  assumes "Temperature order = TEMP_TYPE_HOT \<or> Temperature order = TEMP_TYPE_COLD"
    and "Group_IsFull (idealGroup_of (Temperature order) fs)"
    and "\<not> Group_IsFull (ShelfGroup fs)"
  shows "PlaceOrder now order fs =
     logAction (fs\<lparr>ShelfGroup := fst (Group_Add (ShelfGroup fs) \<lparr>Order = order, PlacedAt = now\<rparr>)\<rparr>)
       (ID order) ACTION_TYPE_PLACE now"
proof -
  from assms(3) obtain g' where "Group_Add (ShelfGroup fs) \<lparr>Order = order, PlacedAt = now\<rparr> = (g', True)"
    using Group_Add_eq [of "ShelfGroup fs" "\<lparr>Order = order, PlacedAt = now\<rparr>"] by simp
  with assms(1,2) show ?thesis
    by (simp add: PlaceOrder_def Let_def Group_Add_full)
qed

lemma PlaceOrder_overflow:
  assumes "Temperature order = TEMP_TYPE_HOT \<or> Temperature order = TEMP_TYPE_COLD"
    and "Group_IsFull (idealGroup_of (Temperature order) fs)"
    and "Group_IsFull (ShelfGroup fs)"
    and "tryMoveFromShelfGroup now (Temperature order) fs = (m, fs3)"
  shows "PlaceOrder now order fs =
     (if m \<and> \<not> Group_IsFull (ShelfGroup fs3)
      then logAction (fs3\<lparr>ShelfGroup := fst (Group_Add (ShelfGroup fs3) \<lparr>Order = order, PlacedAt = now\<rparr>)\<rparr>)
             (ID order) ACTION_TYPE_PLACE now
      else discard_then_add now order \<lparr>Order = order, PlacedAt = now\<rparr> fs3)"
proof (cases "m \<and> \<not> Group_IsFull (ShelfGroup fs3)")
  case True
  then obtain g' where "Group_Add (ShelfGroup fs3) \<lparr>Order = order, PlacedAt = now\<rparr> = (g', True)"
    using Group_Add_eq [of "ShelfGroup fs3" "\<lparr>Order = order, PlacedAt = now\<rparr>"] by simp
  with assms True show ?thesis
    by (simp add: PlaceOrder_def Let_def Group_Add_full)
next
  case False
  with assms show ?thesis
    by (cases m) (simp_all add: PlaceOrder_def Let_def Group_Add_full)
qed

lemma slot_cong:
  assumes "map Capacity g' = map Capacity g" and "\<exists>s \<in> set g. 1 \<le> Capacity s"
  shows "\<exists>s \<in> set g'. 1 \<le> Capacity s"
proof -
  from assms(2) have "\<exists>c \<in> set (map Capacity g). 1 \<le> c" by auto
  with assms(1) have "\<exists>c \<in> set (map Capacity g'). 1 \<le> c" by simp
  then show ?thesis by auto
qed

lemma shelf_add_ok:
  "sys_ok fs \<Longrightarrow> sys_ok (fs\<lparr>ShelfGroup := fst (Group_Add (ShelfGroup fs) so)\<rparr>)"
  by (simp add: sys_ok_def group_ok_Group_Add)

lemma shelf_add_keys:
  "mset (all_keys (fs\<lparr>ShelfGroup := fst (Group_Add (ShelfGroup fs) so)\<rparr>))
     \<subseteq># add_mset (ID (Order so)) (mset (all_keys fs))"
  using Group_Add_keys [of "ShelfGroup fs" so]
  by (simp add: all_keys_def)

lemma ideal_add_ok:
  "sys_ok fs \<Longrightarrow> sys_ok (set_idealGroup temp (fst (Group_Add (idealGroup_of temp fs) so)) fs)"
  by (simp add: sys_ok_def set_idealGroup_def idealGroup_of_def group_ok_Group_Add)

lemma ideal_add_keys:
  "mset (all_keys (set_idealGroup temp (fst (Group_Add (idealGroup_of temp fs) so)) fs))
     \<subseteq># add_mset (ID (Order so)) (mset (all_keys fs))"
  using Group_Add_keys [of "HeaterGroup fs" so] Group_Add_keys [of "CoolerGroup fs" so]
  by (simp add: all_keys_def set_idealGroup_def idealGroup_of_def)

lemma discard_then_add_ok:
  assumes "sys_ok fs"
  shows "sys_ok (discard_then_add now order so fs)"
proof -
  define fs1 where "fs1 = (if Group_IsFull (ShelfGroup fs) then discardOrderFromShelfGroup now fs else fs)"
  from assms have "sys_ok fs1" by (simp add: fs1_def discardOrderFromShelfGroup_ok)
  then show ?thesis
    unfolding discard_then_add_unfold fs1_def [symmetric] Let_def
    by (simp add: shelf_add_ok)
qed

lemma discard_then_add_shelf_ok:
  assumes "group_ok (ShelfGroup fs)"
  shows "group_ok (ShelfGroup (discard_then_add now order so fs))"
proof -
  define fs1 where "fs1 = (if Group_IsFull (ShelfGroup fs) then discardOrderFromShelfGroup now fs else fs)"
  from assms have "group_ok (ShelfGroup fs1)" by (simp add: fs1_def discardOrderFromShelfGroup_shelf_ok)
  then show ?thesis
    unfolding discard_then_add_unfold fs1_def [symmetric] Let_def
    by (simp add: group_ok_Group_Add)
qed

lemma discard_then_add_keys:
  "mset (all_keys (discard_then_add now order so fs)) \<subseteq># add_mset (ID (Order so)) (mset (all_keys fs))"
proof -
  define fs1 where "fs1 = (if Group_IsFull (ShelfGroup fs) then discardOrderFromShelfGroup now fs else fs)"
  have k1: "mset (all_keys fs1) \<subseteq># mset (all_keys fs)"
    by (simp add: fs1_def discardOrderFromShelfGroup_keys)
  then have k2: "add_mset (ID (Order so)) (mset (all_keys fs1)) \<subseteq># add_mset (ID (Order so)) (mset (all_keys fs))"
    by simp
  have k3: "mset (all_keys fs1) \<subseteq># add_mset (ID (Order so)) (mset (all_keys fs))"
    using k1 by (rule subset_mset.trans) simp
  have "mset (all_keys (fs1\<lparr>ShelfGroup := fst (Group_Add (ShelfGroup fs1) so)\<rparr>))
      \<subseteq># add_mset (ID (Order so)) (mset (all_keys fs))"
    using shelf_add_keys [of fs1 so] k2 by (rule subset_mset.trans)
  with k3 show ?thesis
    unfolding discard_then_add_unfold fs1_def [symmetric] Let_def
    by simp
qed

text \<open>
  On a well-formed shelf that has a unit of capacity at least one, the tail of \<open>PlaceOrder\<close>
  always ends by storing the order on the shelf and logging its place action.
\<close>

lemma discard_then_add_placed:
  assumes ok: "group_ok (ShelfGroup fs)" and cap: "\<exists>s \<in> set (ShelfGroup fs). 1 \<le> Capacity s"
  shows "\<exists>mid. Actions (discard_then_add now order so fs) =
            Actions fs @ mid @ [\<lparr>Timestamp = now div 1000, OrderID = ID order, Action = ACTION_TYPE_PLACE\<rparr>]
          \<and> list_all (\<lambda>a. Action a = ACTION_TYPE_MOVE \<or> Action a = ACTION_TYPE_DISCARD) mid
          \<and> ID (Order so) \<in> set (group_keys (ShelfGroup (discard_then_add now order so fs)))"
proof -
  define fs1 where "fs1 = (if Group_IsFull (ShelfGroup fs) then discardOrderFromShelfGroup now fs else fs)"
  from cap obtain s where s: "s \<in> set (ShelfGroup fs)" "1 \<le> Capacity s" by blast
  have nf: "\<not> Group_IsFull (ShelfGroup fs1)"
    using discardOrderFromShelfGroup_frees [OF ok _ s, of now] by (simp add: fs1_def)
  have "\<exists>mid. Actions fs1 = Actions fs @ mid
      \<and> list_all (\<lambda>a. Action a = ACTION_TYPE_MOVE \<or> Action a = ACTION_TYPE_DISCARD) mid"
  proof (cases "Group_IsFull (ShelfGroup fs)")
    case True
    with discardOrderFromShelfGroup_actions [of now fs] show ?thesis
      by (auto simp: fs1_def)
  next
    case False
    then have "Actions fs1 = Actions fs @ []
      \<and> list_all (\<lambda>a. Action a = ACTION_TYPE_MOVE \<or> Action a = ACTION_TYPE_DISCARD) []"
      by (simp add: fs1_def)
    then show ?thesis ..
  qed
  then obtain mid where mid: "Actions fs1 = Actions fs @ mid"
    "list_all (\<lambda>a. Action a = ACTION_TYPE_MOVE \<or> Action a = ACTION_TYPE_DISCARD) mid"
    by blast
  have d: "discard_then_add now order so fs =
      logAction (fs1\<lparr>ShelfGroup := fst (Group_Add (ShelfGroup fs1) so)\<rparr>) (ID order) ACTION_TYPE_PLACE now"
    unfolding discard_then_add_unfold fs1_def [symmetric] Let_def using nf by simp
  from nf have "ID (Order so) \<in> set (group_keys (fst (Group_Add (ShelfGroup fs1) so)))"
    by (intro Group_Add_mem) (simp add: Group_Add_snd)
  with mid show ?thesis
    unfolding d by (intro exI [of _ mid]) simp
qed

lemma PlaceOrder_ok:
  assumes "sys_ok fs"
  shows "sys_ok (PlaceOrder now order fs)"
proof (cases "Temperature order = TEMP_TYPE_HOT \<or> Temperature order = TEMP_TYPE_COLD")
  case False
  then show ?thesis
    using assms by (simp add: PlaceOrder_room shelf_add_ok discard_then_add_ok)
next
  case hc: True
  show ?thesis
  proof (cases "Group_IsFull (idealGroup_of (Temperature order) fs)")
    case False
    with hc assms show ?thesis by (simp add: PlaceOrder_ideal ideal_add_ok)
  next
    case ideal_full: True
    show ?thesis
    proof (cases "Group_IsFull (ShelfGroup fs)")
      case False
      with hc ideal_full assms show ?thesis by (simp add: PlaceOrder_shelf shelf_add_ok)
    next
      case True
      obtain m fs3 where t: "tryMoveFromShelfGroup now (Temperature order) fs = (m, fs3)"
        by (cases "tryMoveFromShelfGroup now (Temperature order) fs") auto
      from tryMoveFromShelfGroup_ok [OF t assms] have "sys_ok fs3" .
      then show ?thesis
        unfolding PlaceOrder_overflow [OF hc ideal_full True t]
        by (simp add: shelf_add_ok discard_then_add_ok)
    qed
  qed
qed

lemma PlaceOrder_shelf_ok:
  assumes "group_ok (ShelfGroup fs)"
  shows "group_ok (ShelfGroup (PlaceOrder now order fs))"
proof (cases "Temperature order = TEMP_TYPE_HOT \<or> Temperature order = TEMP_TYPE_COLD")
  case False
  then show ?thesis
    using assms by (simp add: PlaceOrder_room group_ok_Group_Add discard_then_add_shelf_ok)
next
  case hc: True
  show ?thesis
  proof (cases "Group_IsFull (idealGroup_of (Temperature order) fs)")
    case False
    with hc assms show ?thesis by (simp add: PlaceOrder_ideal set_idealGroup_def)
  next
    case ideal_full: True
    show ?thesis
    proof (cases "Group_IsFull (ShelfGroup fs)")
      case False
      with hc ideal_full assms show ?thesis by (simp add: PlaceOrder_shelf group_ok_Group_Add)
    next
      case True
      obtain m fs3 where t: "tryMoveFromShelfGroup now (Temperature order) fs = (m, fs3)"
        by (cases "tryMoveFromShelfGroup now (Temperature order) fs") auto
      from tryMoveFromShelfGroup_shelf_ok [OF t assms] have "group_ok (ShelfGroup fs3)" .
      then show ?thesis
        unfolding PlaceOrder_overflow [OF hc ideal_full True t]
        by (simp add: group_ok_Group_Add discard_then_add_shelf_ok)
    qed
  qed
qed

lemma PlaceOrder_keys:
  "mset (all_keys (PlaceOrder now order fs)) \<subseteq># add_mset (ID order) (mset (all_keys fs))"
proof (cases "Temperature order = TEMP_TYPE_HOT \<or> Temperature order = TEMP_TYPE_COLD")
  case False
  then show ?thesis
    using shelf_add_keys [of fs "\<lparr>Order = order, PlacedAt = now\<rparr>"]
      discard_then_add_keys [of now order "\<lparr>Order = order, PlacedAt = now\<rparr>" fs]
    by (simp add: PlaceOrder_room)
next
  case hc: True
  show ?thesis
  proof (cases "Group_IsFull (idealGroup_of (Temperature order) fs)")
    case False
    with hc ideal_add_keys [of "Temperature order" fs "\<lparr>Order = order, PlacedAt = now\<rparr>"]
    show ?thesis by (simp add: PlaceOrder_ideal)
  next
    case ideal_full: True
    show ?thesis
    proof (cases "Group_IsFull (ShelfGroup fs)")
      case False
      with hc ideal_full shelf_add_keys [of fs "\<lparr>Order = order, PlacedAt = now\<rparr>"]
      show ?thesis by (simp add: PlaceOrder_shelf)
    next
      case True
      obtain m fs3 where t: "tryMoveFromShelfGroup now (Temperature order) fs = (m, fs3)"
        by (cases "tryMoveFromShelfGroup now (Temperature order) fs") auto
      from tryMoveFromShelfGroup_keys [OF t]
      have k: "add_mset (ID order) (mset (all_keys fs3)) \<subseteq># add_mset (ID order) (mset (all_keys fs))"
        by simp
      have "mset (all_keys (PlaceOrder now order fs)) \<subseteq># add_mset (ID order) (mset (all_keys fs3))"
        unfolding PlaceOrder_overflow [OF hc ideal_full True t]
        using shelf_add_keys [of fs3 "\<lparr>Order = order, PlacedAt = now\<rparr>"]
          discard_then_add_keys [of now order "\<lparr>Order = order, PlacedAt = now\<rparr>" fs3]
        by simp
      then show ?thesis using k by (rule subset_mset.trans)
    qed
  qed
qed

lemma PlaceOrder_placed:
  assumes shelf_ok: "group_ok (ShelfGroup fs)" and cap: "\<exists>s \<in> set (ShelfGroup fs). 1 \<le> Capacity s"
  shows "\<exists>mid. Actions (PlaceOrder now order fs) =
            Actions fs @ mid @ [\<lparr>Timestamp = now div 1000, OrderID = ID order, Action = ACTION_TYPE_PLACE\<rparr>]
          \<and> list_all (\<lambda>a. Action a = ACTION_TYPE_MOVE \<or> Action a = ACTION_TYPE_DISCARD) mid
          \<and> ID order \<in> set (all_keys (PlaceOrder now order fs))"
proof -
  let ?so = "\<lparr>Order = order, PlacedAt = now\<rparr>"
  let ?place = "\<lparr>Timestamp = now div 1000, OrderID = ID order, Action = ACTION_TYPE_PLACE\<rparr>"
  let ?md = "\<lambda>a. Action a = ACTION_TYPE_MOVE \<or> Action a = ACTION_TYPE_DISCARD"
  let ?goal = "\<lambda>r mid. Actions r = Actions fs @ mid @ [?place] \<and> list_all ?md mid \<and> ID order \<in> set (all_keys r)"
  have shelf_add: "?goal (logAction (fs\<lparr>ShelfGroup := fst (Group_Add (ShelfGroup fs) ?so)\<rparr>)
      (ID order) ACTION_TYPE_PLACE now) []" if "\<not> Group_IsFull (ShelfGroup fs)"
  proof -
    from that have "ID (Order ?so) \<in> set (group_keys (fst (Group_Add (ShelfGroup fs) ?so)))"
      by (intro Group_Add_mem) (simp add: Group_Add_snd)
    then show ?thesis by (simp add: all_keys_def)
  qed
  have tail: "\<exists>mid. ?goal (discard_then_add now order ?so fs) mid"
  proof -
    from discard_then_add_placed [OF shelf_ok cap, of now order ?so] obtain mid where
      "Actions (discard_then_add now order ?so fs) = Actions fs @ mid @ [?place]" "list_all ?md mid"
      "ID (Order ?so) \<in> set (group_keys (ShelfGroup (discard_then_add now order ?so fs)))"
      by (elim exE conjE)
    then have "?goal (discard_then_add now order ?so fs) mid"
      by (simp add: all_keys_def)
    then show ?thesis ..
  qed
  show ?thesis
  proof (cases "Temperature order = TEMP_TYPE_HOT \<or> Temperature order = TEMP_TYPE_COLD")
    case False
    show ?thesis
    proof (cases "Group_IsFull (ShelfGroup fs)")
      case True
      with False tail show ?thesis by (simp add: PlaceOrder_room)
    next
      case nf: False
      from shelf_add [OF nf] have "?goal (PlaceOrder now order fs) []"
        using False nf by (simp add: PlaceOrder_room)
      then show ?thesis ..
    qed
  next
    case hc: True
    show ?thesis
    proof (cases "Group_IsFull (idealGroup_of (Temperature order) fs)")
      case False
      then have "ID (Order ?so) \<in> set (group_keys (fst (Group_Add (idealGroup_of (Temperature order) fs) ?so)))"
        by (intro Group_Add_mem) (simp add: Group_Add_snd)
      then have "?goal (PlaceOrder now order fs) []"
        unfolding PlaceOrder_ideal [OF hc False]
        by (auto simp: all_keys_def set_idealGroup_def idealGroup_of_def)
      then show ?thesis ..
    next
      case ideal_full: True
      show ?thesis
      proof (cases "Group_IsFull (ShelfGroup fs)")
        case nf: False
        from shelf_add [OF nf] have "?goal (PlaceOrder now order fs) []"
          unfolding PlaceOrder_shelf [OF hc ideal_full nf] .
        then show ?thesis ..
      next
        case full: True
        obtain m fs3 where t: "tryMoveFromShelfGroup now (Temperature order) fs = (m, fs3)"
          by (cases "tryMoveFromShelfGroup now (Temperature order) fs") auto
        note unfold = PlaceOrder_overflow [OF hc ideal_full full t]
        from tryMoveFromShelfGroup_shelf_ok [OF t shelf_ok] have ok3: "group_ok (ShelfGroup fs3)" .
        show ?thesis
        proof (cases m)
          case True
          with t have t': "tryMoveFromShelfGroup now (Temperature order) fs = (True, fs3)" by simp
          from tryMoveFromShelfGroup_moved [OF t'] shelf_ok
          have nf3: "\<not> Group_IsFull (ShelfGroup fs3)" by simp
          from tryMoveFromShelfGroup_moved [OF t']
          have "\<exists>j. Actions fs3 = Actions fs @ [\<lparr>Timestamp = now div 1000, OrderID = j, Action = ACTION_TYPE_MOVE\<rparr>]"
            by blast
          then obtain j where
            a3: "Actions fs3 = Actions fs @ [\<lparr>Timestamp = now div 1000, OrderID = j, Action = ACTION_TYPE_MOVE\<rparr>]"
            ..
          from nf3 have "ID (Order ?so) \<in> set (group_keys (fst (Group_Add (ShelfGroup fs3) ?so)))"
            by (intro Group_Add_mem) (simp add: Group_Add_snd)
          with a3 nf3 True
          have "?goal (PlaceOrder now order fs) [\<lparr>Timestamp = now div 1000, OrderID = j, Action = ACTION_TYPE_MOVE\<rparr>]"
            unfolding unfold by (simp add: all_keys_def)
          then show ?thesis ..
        next
          case False
          with t have t': "tryMoveFromShelfGroup now (Temperature order) fs = (False, fs3)" by simp
          note f = tryMoveFromShelfGroup_fail [OF t']
          from f cap have cap3: "\<exists>s \<in> set (ShelfGroup fs3). 1 \<le> Capacity s"
            by (intro slot_cong [of "ShelfGroup fs3" "ShelfGroup fs"]) simp_all
          from discard_then_add_placed [OF ok3 cap3, of now order ?so] obtain mid where
            "Actions (discard_then_add now order ?so fs3) = Actions fs3 @ mid @ [?place]" "list_all ?md mid"
            "ID (Order ?so) \<in> set (group_keys (ShelfGroup (discard_then_add now order ?so fs3)))"
            by (elim exE conjE)
          with f False have "?goal (PlaceOrder now order fs) mid"
            unfolding unfold by (simp add: all_keys_def)
          then show ?thesis ..
        qed
      qed
    qed
  qed
qed

subsection \<open>PickupOrder\<close>

lemma PickupOrder_absent:
  assumes "orderID \<notin> set (all_keys fs)"
  shows "PickupOrder now orderID fs = fs"
  using assms by (simp add: PickupOrder_def all_keys_def Group_Remove_None)

lemma PickupOrder_heater:
  assumes "orderID \<in> set (group_keys (HeaterGroup fs))"
  shows "\<exists>pre s post so. HeaterGroup fs = pre @ s # post \<and> orderID \<notin> set (group_keys pre)
           \<and> map_of (Orders s) orderID = Some so
           \<and> PickupOrder now orderID fs =
               logAction (fs\<lparr>HeaterGroup := pre @ s\<lparr>Orders := AList.delete orderID (Orders s)\<rparr> # post\<rparr>)
                 (ID (Order so)) ACTION_TYPE_PICKUP now"
proof -
  from Group_Remove_Some [OF assms] obtain pre s post so where
    a: "HeaterGroup fs = pre @ s # post" "orderID \<notin> set (group_keys pre)" "map_of (Orders s) orderID = Some so"
       "Group_Remove (HeaterGroup fs) orderID = (pre @ s\<lparr>Orders := AList.delete orderID (Orders s)\<rparr> # post, Some so)"
    by blast
  from a(4) have "PickupOrder now orderID fs =
      logAction (fs\<lparr>HeaterGroup := pre @ s\<lparr>Orders := AList.delete orderID (Orders s)\<rparr> # post\<rparr>)
        (ID (Order so)) ACTION_TYPE_PICKUP now"
    by (simp add: PickupOrder_def)
  with a(1,2,3) show ?thesis by blast
qed

lemma PickupOrder_cooler:
  assumes "orderID \<notin> set (group_keys (HeaterGroup fs))" and "orderID \<in> set (group_keys (CoolerGroup fs))"
  shows "\<exists>pre s post so. CoolerGroup fs = pre @ s # post \<and> orderID \<notin> set (group_keys pre)
           \<and> map_of (Orders s) orderID = Some so
           \<and> PickupOrder now orderID fs =
               logAction (fs\<lparr>CoolerGroup := pre @ s\<lparr>Orders := AList.delete orderID (Orders s)\<rparr> # post\<rparr>)
                 (ID (Order so)) ACTION_TYPE_PICKUP now"
proof -
  from Group_Remove_Some [OF assms(2)] obtain pre s post so where
    a: "CoolerGroup fs = pre @ s # post" "orderID \<notin> set (group_keys pre)" "map_of (Orders s) orderID = Some so"
       "Group_Remove (CoolerGroup fs) orderID = (pre @ s\<lparr>Orders := AList.delete orderID (Orders s)\<rparr> # post, Some so)"
    by blast
  from a(4) assms(1) have "PickupOrder now orderID fs =
      logAction (fs\<lparr>CoolerGroup := pre @ s\<lparr>Orders := AList.delete orderID (Orders s)\<rparr> # post\<rparr>)
        (ID (Order so)) ACTION_TYPE_PICKUP now"
    by (simp add: PickupOrder_def Group_Remove_None)
  with a(1,2,3) show ?thesis by blast
qed

lemma PickupOrder_shelf:
  assumes "orderID \<notin> set (group_keys (HeaterGroup fs))" and "orderID \<notin> set (group_keys (CoolerGroup fs))"
    and "orderID \<in> set (group_keys (ShelfGroup fs))"
  shows "\<exists>pre s post so. ShelfGroup fs = pre @ s # post \<and> orderID \<notin> set (group_keys pre)
           \<and> map_of (Orders s) orderID = Some so
           \<and> PickupOrder now orderID fs =
               logAction (fs\<lparr>ShelfGroup := pre @ s\<lparr>Orders := AList.delete orderID (Orders s)\<rparr> # post\<rparr>)
                 (ID (Order so)) ACTION_TYPE_PICKUP now"
proof -
  from Group_Remove_Some [OF assms(3)] obtain pre s post so where
    a: "ShelfGroup fs = pre @ s # post" "orderID \<notin> set (group_keys pre)" "map_of (Orders s) orderID = Some so"
       "Group_Remove (ShelfGroup fs) orderID = (pre @ s\<lparr>Orders := AList.delete orderID (Orders s)\<rparr> # post, Some so)"
    by blast
  from a(4) assms(1,2) have "PickupOrder now orderID fs =
      logAction (fs\<lparr>ShelfGroup := pre @ s\<lparr>Orders := AList.delete orderID (Orders s)\<rparr> # post\<rparr>)
        (ID (Order so)) ACTION_TYPE_PICKUP now"
    by (simp add: PickupOrder_def Group_Remove_None)
  with a(1,2,3) show ?thesis by blast
qed

text \<open>Every outcome of \<open>PickupOrder\<close> removes the id from at most one group.\<close>

lemma PickupOrder_removes:
  "PickupOrder now orderID fs = fs
   \<or> (\<exists>j. PickupOrder now orderID fs =
          logAction (fs\<lparr>HeaterGroup := fst (Group_Remove (HeaterGroup fs) orderID)\<rparr>) j ACTION_TYPE_PICKUP now)
   \<or> (\<exists>j. PickupOrder now orderID fs =
          logAction (fs\<lparr>CoolerGroup := fst (Group_Remove (CoolerGroup fs) orderID)\<rparr>) j ACTION_TYPE_PICKUP now)
   \<or> (\<exists>j. PickupOrder now orderID fs =
          logAction (fs\<lparr>ShelfGroup := fst (Group_Remove (ShelfGroup fs) orderID)\<rparr>) j ACTION_TYPE_PICKUP now)"
proof -
  obtain h rh where h: "Group_Remove (HeaterGroup fs) orderID = (h, rh)"
    by (cases "Group_Remove (HeaterGroup fs) orderID") auto
  obtain c rc where c: "Group_Remove (CoolerGroup fs) orderID = (c, rc)"
    by (cases "Group_Remove (CoolerGroup fs) orderID") auto
  obtain sh rs where sh: "Group_Remove (ShelfGroup fs) orderID = (sh, rs)"
    by (cases "Group_Remove (ShelfGroup fs) orderID") auto
  have none: "g' = g" if "Group_Remove g orderID = (g', None)" for g g'
    using that Group_Remove_snd [of g orderID] Group_Remove_None [of orderID g] by auto
  show ?thesis
  proof (cases rh)
    case (Some so)
    with h have "PickupOrder now orderID fs =
        logAction (fs\<lparr>HeaterGroup := fst (Group_Remove (HeaterGroup fs) orderID)\<rparr>)
          (ID (Order so)) ACTION_TYPE_PICKUP now"
      by (simp add: PickupOrder_def)
    then show ?thesis by blast
  next
    case nh: None
    with h none have h': "h = HeaterGroup fs" by simp
    show ?thesis
    proof (cases rc)
      case (Some so)
      with h nh h' c have "PickupOrder now orderID fs =
          logAction (fs\<lparr>CoolerGroup := fst (Group_Remove (CoolerGroup fs) orderID)\<rparr>)
            (ID (Order so)) ACTION_TYPE_PICKUP now"
        by (simp add: PickupOrder_def)
      then show ?thesis by blast
    next
      case nc: None
      with c none have c': "c = CoolerGroup fs" by simp
      show ?thesis
      proof (cases rs)
        case (Some so)
        with h nh h' c nc c' sh have "PickupOrder now orderID fs =
            logAction (fs\<lparr>ShelfGroup := fst (Group_Remove (ShelfGroup fs) orderID)\<rparr>)
              (ID (Order so)) ACTION_TYPE_PICKUP now"
          by (simp add: PickupOrder_def)
        then show ?thesis by blast
      next
        case None
        with sh none have "sh = ShelfGroup fs" by simp
        with h nh h' c nc c' sh None show ?thesis by (simp add: PickupOrder_def)
      qed
    qed
  qed
qed

lemma PickupOrder_ok:
  assumes "sys_ok fs"
  shows "sys_ok (PickupOrder now orderID fs)"
  using PickupOrder_removes [of now orderID fs] assms
  by (elim disjE exE) (simp_all add: sys_ok_def group_ok_Group_Remove)

lemma PickupOrder_shelf_ok:
  assumes "group_ok (ShelfGroup fs)"
  shows "group_ok (ShelfGroup (PickupOrder now orderID fs))"
  using PickupOrder_removes [of now orderID fs] assms
  by (elim disjE exE) (simp_all add: group_ok_Group_Remove)

lemma PickupOrder_keys: "mset (all_keys (PickupOrder now orderID fs)) \<subseteq># mset (all_keys fs)"
  using PickupOrder_removes [of now orderID fs]
proof (elim disjE exE)
  assume "PickupOrder now orderID fs = fs"
  then show ?thesis by simp
next
  fix j
  assume "PickupOrder now orderID fs =
      logAction (fs\<lparr>HeaterGroup := fst (Group_Remove (HeaterGroup fs) orderID)\<rparr>) j ACTION_TYPE_PICKUP now"
  then show ?thesis
    using Group_Remove_keys [of "HeaterGroup fs" orderID] by (simp add: all_keys_def)
next
  fix j
  assume "PickupOrder now orderID fs =
      logAction (fs\<lparr>CoolerGroup := fst (Group_Remove (CoolerGroup fs) orderID)\<rparr>) j ACTION_TYPE_PICKUP now"
  then show ?thesis
    using Group_Remove_keys [of "CoolerGroup fs" orderID] by (simp add: all_keys_def)
next
  fix j
  assume "PickupOrder now orderID fs =
      logAction (fs\<lparr>ShelfGroup := fst (Group_Remove (ShelfGroup fs) orderID)\<rparr>) j ACTION_TYPE_PICKUP now"
  then show ?thesis
    using Group_Remove_keys [of "ShelfGroup fs" orderID] by (simp add: all_keys_def)
qed

subsection \<open>ReallocateOrders\<close>

lemma realloc_order_skip:
  assumes "\<not> (Temperature (Order so) = TEMP_TYPE_HOT \<and> \<not> Group_IsFull (HeaterGroup fs))"
    and "\<not> (Temperature (Order so) = TEMP_TYPE_COLD \<and> \<not> Group_IsFull (CoolerGroup fs))"
  shows "realloc_order now fs so = fs"
  using assms by (auto simp: realloc_order_def)

lemma realloc_order_hot:
  assumes "Temperature (Order so) = TEMP_TYPE_HOT" and "\<not> Group_IsFull (HeaterGroup fs)"
    and "moveFromShelves now (ID (Order so)) (ShelfGroup fs) (HeaterGroup fs) = (m, sh', ideal')"
  shows "realloc_order now fs so =
     (if m then logAction (fs\<lparr>ShelfGroup := sh', HeaterGroup := ideal'\<rparr>) (ID (Order so)) ACTION_TYPE_MOVE now
      else fs\<lparr>ShelfGroup := sh', HeaterGroup := ideal'\<rparr>)"
  using assms by (cases m) (simp_all add: realloc_order_def)

lemma realloc_order_cold:
  assumes "Temperature (Order so) = TEMP_TYPE_COLD" and "\<not> Group_IsFull (CoolerGroup fs)"
    and "moveFromShelves now (ID (Order so)) (ShelfGroup fs) (CoolerGroup fs) = (m, sh', ideal')"
  shows "realloc_order now fs so =
     (if m then logAction (fs\<lparr>ShelfGroup := sh', CoolerGroup := ideal'\<rparr>) (ID (Order so)) ACTION_TYPE_MOVE now
      else fs\<lparr>ShelfGroup := sh', CoolerGroup := ideal'\<rparr>)"
  using assms by (cases m) (simp_all add: realloc_order_def const_defs)

text \<open>What one pass of the loop body can do to a shelf group and an ideal group.\<close>

lemma moveFromShelves_step:
  assumes mv: "moveFromShelves now i sh ideal = (m, sh', ideal')" and ok: "group_ok sh" "group_ok ideal"
  shows "group_ok sh' \<and> group_ok ideal'
       \<and> mset (group_keys sh') + mset (group_keys ideal') \<subseteq># mset (group_keys sh) + mset (group_keys ideal)
       \<and> length (group_keys sh') + (if m then 1 else 0) = length (group_keys sh)"
proof (cases m)
  case True
  with mv have "moveFromShelves now i sh ideal = (True, sh', ideal')" by simp
  from moveFromShelves_moved [OF this] ok moveFromShelves_ok [OF mv ok] moveFromShelves_keys [OF mv] True
  show ?thesis by simp
next
  case False
  with mv have "moveFromShelves now i sh ideal = (False, sh', ideal')" by simp
  from moveFromShelves_fail [OF this] have "group_keys sh' = group_keys sh"
    by (simp add: group_keys_def)
  with moveFromShelves_ok [OF mv ok] moveFromShelves_keys [OF mv] False
  show ?thesis by simp
qed

lemma realloc_order_step:
  assumes "sys_ok fs"
  shows "sys_ok (realloc_order now fs so)
       \<and> mset (all_keys (realloc_order now fs so)) \<subseteq># mset (all_keys fs)
       \<and> (\<exists>new. Actions (realloc_order now fs so) = Actions fs @ new
             \<and> list_all (\<lambda>a. Action a = ACTION_TYPE_MOVE \<and> Timestamp a = now div 1000) new
             \<and> length (group_keys (ShelfGroup (realloc_order now fs so))) + length new
                 = length (group_keys (ShelfGroup fs)))"
proof -
  let ?goal = "\<lambda>r new. sys_ok r \<and> mset (all_keys r) \<subseteq># mset (all_keys fs)
       \<and> Actions r = Actions fs @ new
       \<and> list_all (\<lambda>a. Action a = ACTION_TYPE_MOVE \<and> Timestamp a = now div 1000) new
       \<and> length (group_keys (ShelfGroup r)) + length new = length (group_keys (ShelfGroup fs))"
  have "\<exists>new. ?goal (realloc_order now fs so) new"
  proof (cases "Temperature (Order so) = TEMP_TYPE_HOT \<and> \<not> Group_IsFull (HeaterGroup fs)")
    case True
    obtain m sh' ideal' where mv:
      "moveFromShelves now (ID (Order so)) (ShelfGroup fs) (HeaterGroup fs) = (m, sh', ideal')"
      by (cases "moveFromShelves now (ID (Order so)) (ShelfGroup fs) (HeaterGroup fs)") auto
    from moveFromShelves_step [OF mv] assms
    have st: "group_ok sh'" "group_ok ideal'"
      "mset (group_keys sh') + mset (group_keys ideal')
         \<subseteq># mset (group_keys (ShelfGroup fs)) + mset (group_keys (HeaterGroup fs))"
      "length (group_keys sh') + (if m then 1 else 0) = length (group_keys (ShelfGroup fs))"
      by (simp_all add: sys_ok_def)
    from st(3) have k: "mset (group_keys ideal') + (mset (group_keys (CoolerGroup fs)) + mset (group_keys sh'))
        \<subseteq># mset (group_keys (HeaterGroup fs)) + (mset (group_keys (CoolerGroup fs)) + mset (group_keys (ShelfGroup fs)))"
      by (simp add: ac_simps)
    have "?goal (realloc_order now fs so)
        (if m then [\<lparr>Timestamp = now div 1000, OrderID = ID (Order so), Action = ACTION_TYPE_MOVE\<rparr>] else [])"
      unfolding realloc_order_hot [OF conjunct1 [OF True] conjunct2 [OF True] mv]
      using st(1,2,4) k assms by (cases m) (simp_all add: sys_ok_def all_keys_def)
    then show ?thesis ..
  next
    case nh: False
    show ?thesis
    proof (cases "Temperature (Order so) = TEMP_TYPE_COLD \<and> \<not> Group_IsFull (CoolerGroup fs)")
      case True
      obtain m sh' ideal' where mv:
        "moveFromShelves now (ID (Order so)) (ShelfGroup fs) (CoolerGroup fs) = (m, sh', ideal')"
        by (cases "moveFromShelves now (ID (Order so)) (ShelfGroup fs) (CoolerGroup fs)") auto
      from moveFromShelves_step [OF mv] assms
      have st: "group_ok sh'" "group_ok ideal'"
        "mset (group_keys sh') + mset (group_keys ideal')
           \<subseteq># mset (group_keys (ShelfGroup fs)) + mset (group_keys (CoolerGroup fs))"
        "length (group_keys sh') + (if m then 1 else 0) = length (group_keys (ShelfGroup fs))"
        by (simp_all add: sys_ok_def)
      from st(3) have k: "mset (group_keys (HeaterGroup fs)) + (mset (group_keys ideal') + mset (group_keys sh'))
          \<subseteq># mset (group_keys (HeaterGroup fs)) + (mset (group_keys (CoolerGroup fs)) + mset (group_keys (ShelfGroup fs)))"
        by (simp add: ac_simps)
      have "?goal (realloc_order now fs so)
          (if m then [\<lparr>Timestamp = now div 1000, OrderID = ID (Order so), Action = ACTION_TYPE_MOVE\<rparr>] else [])"
        unfolding realloc_order_cold [OF conjunct1 [OF True] conjunct2 [OF True] mv]
        using st(1,2,4) k assms by (cases m) (simp_all add: sys_ok_def all_keys_def)
      then show ?thesis ..
    next
      case False
      with nh assms have "?goal (realloc_order now fs so) []"
        by (simp add: realloc_order_skip)
      then show ?thesis ..
    qed
  qed
  then show ?thesis by blast
qed

lemma realloc_fold:
  assumes "sys_ok fs"
  shows "sys_ok (foldl (realloc_order now) fs sos)
       \<and> mset (all_keys (foldl (realloc_order now) fs sos)) \<subseteq># mset (all_keys fs)
       \<and> (\<exists>new. Actions (foldl (realloc_order now) fs sos) = Actions fs @ new
             \<and> list_all (\<lambda>a. Action a = ACTION_TYPE_MOVE \<and> Timestamp a = now div 1000) new
             \<and> length (group_keys (ShelfGroup (foldl (realloc_order now) fs sos))) + length new
                 = length (group_keys (ShelfGroup fs)))"
  using assms
proof (induction sos arbitrary: fs)
  case Nil
  then show ?case by simp
next
  case (Cons so sos)
  let ?fs1 = "realloc_order now fs so"
  let ?r = "foldl (realloc_order now) ?fs1 sos"
  from realloc_order_step [OF Cons.prems, of now so] obtain new1 where
    s1: "sys_ok ?fs1" "mset (all_keys ?fs1) \<subseteq># mset (all_keys fs)" "Actions ?fs1 = Actions fs @ new1"
      "list_all (\<lambda>a. Action a = ACTION_TYPE_MOVE \<and> Timestamp a = now div 1000) new1"
      "length (group_keys (ShelfGroup ?fs1)) + length new1 = length (group_keys (ShelfGroup fs))"
    by blast
  from Cons.IH [OF s1(1)] obtain new2 where
    s2: "sys_ok ?r" "mset (all_keys ?r) \<subseteq># mset (all_keys ?fs1)" "Actions ?r = Actions ?fs1 @ new2"
      "list_all (\<lambda>a. Action a = ACTION_TYPE_MOVE \<and> Timestamp a = now div 1000) new2"
      "length (group_keys (ShelfGroup ?r)) + length new2 = length (group_keys (ShelfGroup ?fs1))"
    by blast
  from s2(2) s1(2) have k: "mset (all_keys ?r) \<subseteq># mset (all_keys fs)"
    by (rule subset_mset.trans)
  have "Actions ?r = Actions fs @ (new1 @ new2)
      \<and> list_all (\<lambda>a. Action a = ACTION_TYPE_MOVE \<and> Timestamp a = now div 1000) (new1 @ new2)
      \<and> length (group_keys (ShelfGroup ?r)) + length (new1 @ new2) = length (group_keys (ShelfGroup fs))"
    using s1(3,4,5) s2(3,4,5) by simp
  then have "\<exists>new. Actions ?r = Actions fs @ new
      \<and> list_all (\<lambda>a. Action a = ACTION_TYPE_MOVE \<and> Timestamp a = now div 1000) new
      \<and> length (group_keys (ShelfGroup ?r)) + length new = length (group_keys (ShelfGroup fs))"
    by (rule exI)
  with s2(1) k show ?case by simp
qed

lemma realloc_fold_ideal_full:
  assumes "Group_IsFull (HeaterGroup fs)" and "Group_IsFull (CoolerGroup fs)"
  shows "foldl (realloc_order now) fs sos = fs"
  using assms by (induction sos) (simp_all add: realloc_order_skip)

lemma ReallocateOrders_tick_ok: "sys_ok fs \<Longrightarrow> sys_ok (ReallocateOrders_tick now fs)"
  by (simp add: ReallocateOrders_tick_def realloc_fold)

lemma realloc_order_shelf_ok:
  assumes "group_ok (ShelfGroup fs)"
  shows "group_ok (ShelfGroup (realloc_order now fs so))"
proof (cases "Temperature (Order so) = TEMP_TYPE_HOT \<and> \<not> Group_IsFull (HeaterGroup fs)")
  case True
  obtain m sh' ideal' where mv:
    "moveFromShelves now (ID (Order so)) (ShelfGroup fs) (HeaterGroup fs) = (m, sh', ideal')"
    by (cases "moveFromShelves now (ID (Order so)) (ShelfGroup fs) (HeaterGroup fs)") auto
  from moveFromShelves_shelf_ok [OF mv assms] show ?thesis
    unfolding realloc_order_hot [OF conjunct1 [OF True] conjunct2 [OF True] mv] by simp
next
  case nh: False
  show ?thesis
  proof (cases "Temperature (Order so) = TEMP_TYPE_COLD \<and> \<not> Group_IsFull (CoolerGroup fs)")
    case True
    obtain m sh' ideal' where mv:
      "moveFromShelves now (ID (Order so)) (ShelfGroup fs) (CoolerGroup fs) = (m, sh', ideal')"
      by (cases "moveFromShelves now (ID (Order so)) (ShelfGroup fs) (CoolerGroup fs)") auto
    from moveFromShelves_shelf_ok [OF mv assms] show ?thesis
      unfolding realloc_order_cold [OF conjunct1 [OF True] conjunct2 [OF True] mv] by simp
  next
    case False
    with nh assms show ?thesis by (simp add: realloc_order_skip)
  qed
qed

lemma ReallocateOrders_tick_shelf_ok:
  assumes "group_ok (ShelfGroup fs)"
  shows "group_ok (ShelfGroup (ReallocateOrders_tick now fs))"
proof -
  have "group_ok (ShelfGroup f) \<Longrightarrow> group_ok (ShelfGroup (foldl (realloc_order now) f sos))" for f sos
    by (induction sos arbitrary: f) (simp_all add: realloc_order_shelf_ok)
  with assms show ?thesis by (simp add: ReallocateOrders_tick_def)
qed

lemma ReallocateOrders_tick_keys: "mset (all_keys (ReallocateOrders_tick now fs)) \<subseteq># mset (all_keys fs)"
proof -
  have step: "mset (all_keys (realloc_order now f so)) \<subseteq># mset (all_keys f)" for f so
  proof (cases "Temperature (Order so) = TEMP_TYPE_HOT \<and> \<not> Group_IsFull (HeaterGroup f)")
    case True
    obtain m sh' ideal' where mv:
      "moveFromShelves now (ID (Order so)) (ShelfGroup f) (HeaterGroup f) = (m, sh', ideal')"
      by (cases "moveFromShelves now (ID (Order so)) (ShelfGroup f) (HeaterGroup f)") auto
    from moveFromShelves_keys [OF mv] show ?thesis
      unfolding realloc_order_hot [OF conjunct1 [OF True] conjunct2 [OF True] mv]
      by (simp add: all_keys_def ac_simps)
  next
    case nh: False
    show ?thesis
    proof (cases "Temperature (Order so) = TEMP_TYPE_COLD \<and> \<not> Group_IsFull (CoolerGroup f)")
      case True
      obtain m sh' ideal' where mv:
        "moveFromShelves now (ID (Order so)) (ShelfGroup f) (CoolerGroup f) = (m, sh', ideal')"
        by (cases "moveFromShelves now (ID (Order so)) (ShelfGroup f) (CoolerGroup f)") auto
      from moveFromShelves_keys [OF mv] show ?thesis
        unfolding realloc_order_cold [OF conjunct1 [OF True] conjunct2 [OF True] mv]
        by (simp add: all_keys_def ac_simps)
    next
      case False
      with nh show ?thesis by (simp add: realloc_order_skip)
    qed
  qed
  have "mset (all_keys (foldl (realloc_order now) f sos)) \<subseteq># mset (all_keys f)" for f sos
  proof (induction sos arbitrary: f)
    case Nil
    then show ?case by simp
  next
    case (Cons so sos)
    from Cons.IH [of "realloc_order now f so"] step [of f so] show ?case
      by (simp add: subset_mset.trans)
  qed
  then show ?thesis by (simp add: ReallocateOrders_tick_def)
qed

subsection \<open>The initial system and runs\<close>

lemma NewStorage_group:
  "group_keys (map (\<lambda>i. NewStorage (f i) c) xs) = []"
  "0 \<le> c \<Longrightarrow> group_ok (map (\<lambda>i. NewStorage (f i) c) xs)"
  by (induction xs) (simp_all add: NewStorage_def keys_def unit_ok_def len_def)

lemma NewFulfillmentSystem_keys [simp]: "all_keys (NewFulfillmentSystem cfg) = []"
  by (simp add: NewFulfillmentSystem_def all_keys_def NewStorage_group)

lemma NewFulfillmentSystem_ok:
  "0 \<le> CoolerCap cfg \<Longrightarrow> 0 \<le> HeaterCap cfg \<Longrightarrow> 0 \<le> ShelfCap cfg \<Longrightarrow> sys_ok (NewFulfillmentSystem cfg)"
  by (simp add: NewFulfillmentSystem_def sys_ok_def NewStorage_group)

lemma step_keys:
  "mset (all_keys (step fs op)) \<subseteq>#
     (case op of Place now order \<Rightarrow> add_mset (ID order) (mset (all_keys fs)) | _ \<Rightarrow> mset (all_keys fs))"
proof (cases op)
  case (Place now order)
  then show ?thesis by (simp add: PlaceOrder_keys)
next
  case (Pickup now i)
  then show ?thesis by (simp add: PickupOrder_keys)
next
  case (Tick now)
  then show ?thesis by (simp add: ReallocateOrders_tick_keys)
next
  case (Discard now)
  then show ?thesis by (simp add: discardOrderFromShelfGroup_keys)
next
  case (TryMove now temp)
  then show ?thesis
    using tryMoveFromShelfGroup_keys [of now temp fs]
    by (cases "tryMoveFromShelfGroup now temp fs") simp
qed

lemma step_ok: "sys_ok fs \<Longrightarrow> sys_ok (step fs op)"
proof (cases op)
  case (TryMove now temp)
  assume "sys_ok fs"
  with TryMove show ?thesis
    using tryMoveFromShelfGroup_ok [of now temp fs]
    by (cases "tryMoveFromShelfGroup now temp fs") simp
qed (simp_all add: PlaceOrder_ok PickupOrder_ok ReallocateOrders_tick_ok discardOrderFromShelfGroup_ok)

lemma run_unique:
  assumes "distinct (placed_ids ops)" and "distinct (all_keys fs)"
    and "set (placed_ids ops) \<inter> set (all_keys fs) = {}"
  shows "distinct (all_keys (run fs ops))"
  using assms
proof (induction ops arbitrary: fs)
  case Nil
  then show ?case by (simp add: run_def)
next
  case (Cons op ops)
  have run: "run fs (op # ops) = run (step fs op) ops" by (simp add: run_def)
  show ?case
  proof (cases op)
    case (Place now order)
    with Cons.prems have new: "ID order \<notin> set (all_keys fs)" "ID order \<notin> set (placed_ids ops)"
      "distinct (placed_ids ops)" "set (placed_ids ops) \<inter> set (all_keys fs) = {}"
      by auto
    from step_keys [of fs op] Place
    have k: "mset (all_keys (step fs op)) \<subseteq># mset (ID order # all_keys fs)" by simp
    from new(1) Cons.prems(2) have "distinct (ID order # all_keys fs)" by simp
    with k have d: "distinct (all_keys (step fs op))" by (rule distinct_mset_subseteq)
    from k have "set (all_keys (step fs op)) \<subseteq> set (ID order # all_keys fs)"
      using set_mset_mono by fastforce
    with new(2,4) have "set (placed_ids ops) \<inter> set (all_keys (step fs op)) = {}" by auto
    from Cons.IH [OF new(3) d this] show ?thesis unfolding run .
  next
    case (Pickup now i)
    with Cons.prems have p: "distinct (placed_ids ops)" "set (placed_ids ops) \<inter> set (all_keys fs) = {}"
      by auto
    from step_keys [of fs op] Pickup have k: "mset (all_keys (step fs op)) \<subseteq># mset (all_keys fs)" by simp
    from k Cons.prems(2) have d: "distinct (all_keys (step fs op))" by (rule distinct_mset_subseteq)
    from k have "set (all_keys (step fs op)) \<subseteq> set (all_keys fs)" using set_mset_mono by fastforce
    with p(2) have "set (placed_ids ops) \<inter> set (all_keys (step fs op)) = {}" by auto
    from Cons.IH [OF p(1) d this] show ?thesis unfolding run .
  next
    case (Tick now)
    with Cons.prems have p: "distinct (placed_ids ops)" "set (placed_ids ops) \<inter> set (all_keys fs) = {}"
      by auto
    from step_keys [of fs op] Tick have k: "mset (all_keys (step fs op)) \<subseteq># mset (all_keys fs)" by simp
    from k Cons.prems(2) have d: "distinct (all_keys (step fs op))" by (rule distinct_mset_subseteq)
    from k have "set (all_keys (step fs op)) \<subseteq> set (all_keys fs)" using set_mset_mono by fastforce
    with p(2) have "set (placed_ids ops) \<inter> set (all_keys (step fs op)) = {}" by auto
    from Cons.IH [OF p(1) d this] show ?thesis unfolding run .
  next
    case (Discard now)
    with Cons.prems have p: "distinct (placed_ids ops)" "set (placed_ids ops) \<inter> set (all_keys fs) = {}"
      by auto
    from step_keys [of fs op] Discard have k: "mset (all_keys (step fs op)) \<subseteq># mset (all_keys fs)" by simp
    from k Cons.prems(2) have d: "distinct (all_keys (step fs op))" by (rule distinct_mset_subseteq)
    from k have "set (all_keys (step fs op)) \<subseteq> set (all_keys fs)" using set_mset_mono by fastforce
    with p(2) have "set (placed_ids ops) \<inter> set (all_keys (step fs op)) = {}" by auto
    from Cons.IH [OF p(1) d this] show ?thesis unfolding run .
  next
    case (TryMove now temp)
    with Cons.prems have p: "distinct (placed_ids ops)" "set (placed_ids ops) \<inter> set (all_keys fs) = {}"
      by auto
    from step_keys [of fs op] TryMove have k: "mset (all_keys (step fs op)) \<subseteq># mset (all_keys fs)" by simp
    from k Cons.prems(2) have d: "distinct (all_keys (step fs op))" by (rule distinct_mset_subseteq)
    from k have "set (all_keys (step fs op)) \<subseteq> set (all_keys fs)" using set_mset_mono by fastforce
    with p(2) have "set (placed_ids ops) \<inter> set (all_keys (step fs op)) = {}" by auto
    from Cons.IH [OF p(1) d this] show ?thesis unfolding run .
  qed
qed

lemma step_shelf_ok: "group_ok (ShelfGroup fs) \<Longrightarrow> group_ok (ShelfGroup (step fs op))"
proof (cases op)
  case (TryMove now temp)
  assume "group_ok (ShelfGroup fs)"
  with TryMove show ?thesis
    using tryMoveFromShelfGroup_shelf_ok [of now temp fs]
    by (cases "tryMoveFromShelfGroup now temp fs") simp
qed (simp_all add: PlaceOrder_shelf_ok PickupOrder_shelf_ok ReallocateOrders_tick_shelf_ok
       discardOrderFromShelfGroup_shelf_ok)

lemma run_shelf_ok: "group_ok (ShelfGroup fs) \<Longrightarrow> group_ok (ShelfGroup (run fs ops))"
  unfolding run_def by (induction ops arbitrary: fs) (simp_all add: step_shelf_ok)

lemma NewFulfillmentSystem_shelf_ok:
  "0 \<le> ShelfCap cfg \<Longrightarrow> group_ok (ShelfGroup (NewFulfillmentSystem cfg))"
  by (simp add: NewFulfillmentSystem_def NewStorage_group)

lemma run_ok: "sys_ok fs \<Longrightarrow> sys_ok (run fs ops)"
  unfolding run_def by (induction ops arbitrary: fs) (simp_all add: step_ok)

subsection \<open>Capacities never change\<close>

lemma moveFromShelves_Capacity:
  assumes "moveFromShelves now i sh dst = (m, sh', dst')"
  shows "map Capacity sh' = map Capacity sh"
  using assms moveFromShelves_fail [of now i sh dst sh' dst'] moveFromShelves_moved [of now i sh dst sh' dst']
  by (cases m) simp_all

lemma tryMoveFromShelfGroup_Capacity:
  "map Capacity (ShelfGroup (snd (tryMoveFromShelfGroup now temp fs))) = map Capacity (ShelfGroup fs)"
proof -
  obtain m fs' where t: "tryMoveFromShelfGroup now temp fs = (m, fs')"
    by (cases "tryMoveFromShelfGroup now temp fs") auto
  then show ?thesis
    using tryMoveFromShelfGroup_fail [of now temp fs fs'] tryMoveFromShelfGroup_moved [of now temp fs fs']
    by (cases m) simp_all
qed

lemma discard_then_add_Capacity:
  "map Capacity (ShelfGroup (discard_then_add now order so fs)) = map Capacity (ShelfGroup fs)"
  unfolding discard_then_add_unfold Let_def
  by (simp add: discardOrderFromShelfGroup_Capacity)

lemma PlaceOrder_Capacity:
  "map Capacity (ShelfGroup (PlaceOrder now order fs)) = map Capacity (ShelfGroup fs)"
proof (cases "Temperature order = TEMP_TYPE_HOT \<or> Temperature order = TEMP_TYPE_COLD")
  case False
  then show ?thesis by (simp add: PlaceOrder_room discard_then_add_Capacity)
next
  case hc: True
  show ?thesis
  proof (cases "Group_IsFull (idealGroup_of (Temperature order) fs)")
    case False
    with hc show ?thesis by (simp add: PlaceOrder_ideal set_idealGroup_def)
  next
    case ideal_full: True
    show ?thesis
    proof (cases "Group_IsFull (ShelfGroup fs)")
      case False
      with hc ideal_full show ?thesis by (simp add: PlaceOrder_shelf)
    next
      case True
      obtain m fs3 where t: "tryMoveFromShelfGroup now (Temperature order) fs = (m, fs3)"
        by (cases "tryMoveFromShelfGroup now (Temperature order) fs") auto
      from tryMoveFromShelfGroup_Capacity [of now "Temperature order" fs] t
      have "map Capacity (ShelfGroup fs3) = map Capacity (ShelfGroup fs)" by simp
      then show ?thesis
        unfolding PlaceOrder_overflow [OF hc ideal_full True t]
        by (simp add: discard_then_add_Capacity)
    qed
  qed
qed

lemma PickupOrder_Capacity:
  "map Capacity (ShelfGroup (PickupOrder now orderID fs)) = map Capacity (ShelfGroup fs)"
  using PickupOrder_removes [of now orderID fs]
  by (elim disjE exE) simp_all

lemma realloc_order_Capacity:
  "map Capacity (ShelfGroup (realloc_order now fs so)) = map Capacity (ShelfGroup fs)"
proof (cases "Temperature (Order so) = TEMP_TYPE_HOT \<and> \<not> Group_IsFull (HeaterGroup fs)")
  case True
  obtain m sh' ideal' where mv:
    "moveFromShelves now (ID (Order so)) (ShelfGroup fs) (HeaterGroup fs) = (m, sh', ideal')"
    by (cases "moveFromShelves now (ID (Order so)) (ShelfGroup fs) (HeaterGroup fs)") auto
  from moveFromShelves_Capacity [OF mv] show ?thesis
    unfolding realloc_order_hot [OF conjunct1 [OF True] conjunct2 [OF True] mv] by simp
next
  case nh: False
  show ?thesis
  proof (cases "Temperature (Order so) = TEMP_TYPE_COLD \<and> \<not> Group_IsFull (CoolerGroup fs)")
    case True
    obtain m sh' ideal' where mv:
      "moveFromShelves now (ID (Order so)) (ShelfGroup fs) (CoolerGroup fs) = (m, sh', ideal')"
      by (cases "moveFromShelves now (ID (Order so)) (ShelfGroup fs) (CoolerGroup fs)") auto
    from moveFromShelves_Capacity [OF mv] show ?thesis
      unfolding realloc_order_cold [OF conjunct1 [OF True] conjunct2 [OF True] mv] by simp
  next
    case False
    with nh show ?thesis by (simp add: realloc_order_skip)
  qed
qed

lemma ReallocateOrders_tick_Capacity:
  "map Capacity (ShelfGroup (ReallocateOrders_tick now fs)) = map Capacity (ShelfGroup fs)"
proof -
  have "map Capacity (ShelfGroup (foldl (realloc_order now) f sos)) = map Capacity (ShelfGroup f)" for f sos
    by (induction sos arbitrary: f) (simp_all add: realloc_order_Capacity)
  then show ?thesis by (simp add: ReallocateOrders_tick_def)
qed

lemma step_Capacity: "map Capacity (ShelfGroup (step fs op)) = map Capacity (ShelfGroup fs)"
  by (cases op)
     (simp_all add: PlaceOrder_Capacity PickupOrder_Capacity ReallocateOrders_tick_Capacity
        discardOrderFromShelfGroup_Capacity tryMoveFromShelfGroup_Capacity)

lemma run_Capacity: "map Capacity (ShelfGroup (run fs ops)) = map Capacity (ShelfGroup fs)"
  unfolding run_def by (induction ops arbitrary: fs) (simp_all add: step_Capacity)

lemma NewFulfillmentSystem_slot:
  assumes "1 \<le> NumShelves cfg" and "1 \<le> ShelfCap cfg"
  shows "\<exists>s \<in> set (ShelfGroup (NewFulfillmentSystem cfg)). 1 \<le> Capacity s"
proof -
  define f where "f = (\<lambda>i. NewStorage (''Shelf-'' @ decimal (nat i)) (ShelfCap cfg))"
  from assms(1) have "(1::int) \<in> set [1..NumShelves cfg]" by simp
  then have "f 1 \<in> f ` set [1..NumShelves cfg]" by (rule imageI)
  moreover have "ShelfGroup (NewFulfillmentSystem cfg) = map f [1..NumShelves cfg]"
    by (simp add: NewFulfillmentSystem_def f_def)
  ultimately have "f 1 \<in> set (ShelfGroup (NewFulfillmentSystem cfg))"
    by (simp del: set_upto)
  moreover from assms(2) have "1 \<le> Capacity (f 1)"
    by (simp add: NewStorage_def f_def)
  ultimately show ?thesis by (rule rev_bexI)
qed

subsection \<open>Attempts into a group with room\<close>


subsection \<open>A move keeps every id exactly once\<close>

lemma atomicMoveOrder_keeps_ids:
  assumes mv: "atomicMoveOrder now i src dst = (m, src', dst')"
    and d: "distinct (keys src @ group_keys dst)"
  shows "mset (keys src' @ group_keys dst') = mset (keys src @ group_keys dst)"
  using atomicMoveOrder_result [OF mv]
proof (elim disjE conjE exE)
  assume "dst' = dst" "src' = src"
  then show ?thesis by simp
next
  fix ord ord'
  assume "dst' = dst" "map_of (Orders src) i = Some ord"
    "src' = src\<lparr>Orders := AList.update i ord' (Orders src)\<rparr>"
  then show ?thesis by (simp add: keys_update_mem in_keys_iff)
next
  fix ord ord' pre e post
  assume a: "map_of (Orders src) i = Some ord"
    "src' = src\<lparr>Orders := AList.delete i (Orders src)\<rparr>" "dst = pre @ e # post"
    "dst' = pre @ e\<lparr>Orders := AList.update i ord' (Orders e)\<rparr> # post"
  from a(1) have mem: "i \<in> set (keys src)" by (simp add: in_keys_iff)
  with d a(3) have notin: "i \<notin> set (keys e)" by auto
  from d have "distinct (keys src)" by simp
  then have k1: "mset (keys src') = mset (keys src) - {#i#}"
    using mset_removeAll_distinct [of "keys src" i]
    by (simp add: a(2) keys_def AList.delete_keys del: mset_map)
  from notin have k2: "mset (keys (e\<lparr>Orders := AList.update i ord' (Orders e)\<rparr>)) = add_mset i (mset (keys e))"
    using mset_keys_update [of i ord' "Orders e"]
    by (simp add: keys_def del: mset_map)
  from mem have "add_mset i (mset (keys src) - {#i#}) = mset (keys src)" by simp
  then have "mset (keys src) - {#i#} + (mset (group_keys pre) + add_mset i (mset (keys e)) + mset (group_keys post))
      = mset (keys src) + (mset (group_keys pre) + mset (keys e) + mset (group_keys post))"
    by (metis add_mset_add_single union_mset_add_mset_left union_mset_add_mset_right)
  then show ?thesis
    by (simp add: a(3,4) k1 k2 del: mset_map)
qed

section \<open>Invariants of the storage (claims C5, C6, C8)\<close>

text \<open>
  C5. With \<open>unit_ok\<close> saying that a unit holds each id once, each order under its own id,
  and no more orders than its capacity: the system built from a configuration with
  non-negative capacities is well formed, and unit add and remove, group add and remove,
  the atomic move, pickup, discard, the shelf move, place and the reallocation tick keep
  every unit well formed, so after any run the occupancy of every unit is within its
  capacity. Adding an order whose id is already in the unit succeeds and overwrites the
  entry in place, with the same keys and occupancy; adding a new id succeeds exactly when
  the occupancy is strictly below the capacity, and a refused add changes nothing.
\<close>

theorem occupancy_within_capacity:
  "(0 \<le> CoolerCap cfg \<and> 0 \<le> HeaterCap cfg \<and> 0 \<le> ShelfCap cfg \<longrightarrow>
       sys_ok (NewFulfillmentSystem cfg) \<and> sys_ok (run (NewFulfillmentSystem cfg) ops))
   \<and> (unit_ok s \<longrightarrow> len s \<le> Capacity s
          \<and> unit_ok (fst (Storage_Add s so)) \<and> unit_ok (fst (Storage_Remove s i)))
   \<and> (group_ok g \<longrightarrow> group_ok (fst (Group_Add g so)) \<and> group_ok (fst (Group_Remove g i)))
   \<and> (unit_ok src \<and> group_ok dst \<longrightarrow>
          unit_ok (fst (snd (atomicMoveOrder now i src dst)))
        \<and> group_ok (snd (snd (atomicMoveOrder now i src dst))))
   \<and> (sys_ok fs \<longrightarrow>
          sys_ok (PlaceOrder now order fs) \<and> sys_ok (PickupOrder now i fs)
        \<and> sys_ok (discardOrderFromShelfGroup now fs)
        \<and> sys_ok (snd (tryMoveFromShelfGroup now temp fs))
        \<and> sys_ok (ReallocateOrders_tick now fs)
        \<and> list_all (\<lambda>u. len u \<le> Capacity u) (HeaterGroup fs @ CoolerGroup fs @ ShelfGroup fs))
   \<and> (map_of (Orders s) (ID (Order so)) \<noteq> None \<longrightarrow>
          snd (Storage_Add s so) \<and> len (fst (Storage_Add s so)) = len s
        \<and> keys (fst (Storage_Add s so)) = keys s
        \<and> map_of (Orders (fst (Storage_Add s so))) (ID (Order so)) = Some so)
   \<and> (map_of (Orders s) (ID (Order so)) = None \<longrightarrow>
          snd (Storage_Add s so) = (len s < Capacity s)
        \<and> (len s < Capacity s \<longrightarrow> len (fst (Storage_Add s so)) = len s + 1)
        \<and> (\<not> len s < Capacity s \<longrightarrow> fst (Storage_Add s so) = s))"
proof (intro conjI impI)
  assume "0 \<le> CoolerCap cfg \<and> 0 \<le> HeaterCap cfg \<and> 0 \<le> ShelfCap cfg"
  then show new: "sys_ok (NewFulfillmentSystem cfg)" by (simp add: NewFulfillmentSystem_ok)
  then show "sys_ok (run (NewFulfillmentSystem cfg) ops)" by (rule run_ok)
next
  assume "unit_ok s"
  then show "len s \<le> Capacity s" "unit_ok (fst (Storage_Add s so))" "unit_ok (fst (Storage_Remove s i))"
    by (simp_all add: unit_ok_def [of s] unit_ok_Storage_Add unit_ok_Storage_Remove)
next
  assume "group_ok g"
  then show "group_ok (fst (Group_Add g so))" "group_ok (fst (Group_Remove g i))"
    by (simp_all add: group_ok_Group_Add group_ok_Group_Remove)
next
  assume a: "unit_ok src \<and> group_ok dst"
  obtain m src' dst' where mv: "atomicMoveOrder now i src dst = (m, src', dst')"
    by (cases "atomicMoveOrder now i src dst") auto
  from atomicMoveOrder_ok [OF mv] a
  show "unit_ok (fst (snd (atomicMoveOrder now i src dst)))"
    "group_ok (snd (snd (atomicMoveOrder now i src dst)))"
    by (simp_all add: mv)
next
  assume ok: "sys_ok fs"
  then show "sys_ok (PlaceOrder now order fs)" by (rule PlaceOrder_ok)
  from ok show "sys_ok (PickupOrder now i fs)" by (rule PickupOrder_ok)
  from ok show "sys_ok (discardOrderFromShelfGroup now fs)" by (rule discardOrderFromShelfGroup_ok)
  from ok show "sys_ok (snd (tryMoveFromShelfGroup now temp fs))"
    using tryMoveFromShelfGroup_ok [of now temp fs]
    by (cases "tryMoveFromShelfGroup now temp fs") simp
  from ok show "sys_ok (ReallocateOrders_tick now fs)" by (rule ReallocateOrders_tick_ok)
  from ok show "list_all (\<lambda>u. len u \<le> Capacity u) (HeaterGroup fs @ CoolerGroup fs @ ShelfGroup fs)"
    by (auto simp: sys_ok_def group_ok_def unit_ok_def list_all_iff)
next
  assume a: "map_of (Orders s) (ID (Order so)) \<noteq> None"
  then have mem: "ID (Order so) \<in> fst ` set (Orders s)"
    by (simp add: map_of_eq_None_iff)
  from a show "snd (Storage_Add s so)" by (simp add: Storage_Add_def)
  from a mem show "len (fst (Storage_Add s so)) = len s"
    by (simp add: Storage_Add_def len_def length_update_mem)
  from a mem show "keys (fst (Storage_Add s so)) = keys s"
    by (simp add: Storage_Add_def keys_def AList.update_keys)
  from a show "map_of (Orders (fst (Storage_Add s so))) (ID (Order so)) = Some so"
    by (simp add: Storage_Add_def AList.update_conv')
next
  assume a: "map_of (Orders s) (ID (Order so)) = None"
  then show "snd (Storage_Add s so) = (len s < Capacity s)" by (simp add: Storage_Add_def)
  from a have "ID (Order so) \<notin> fst ` set (Orders s)" by (simp add: map_of_eq_None_iff)
  then show "len (fst (Storage_Add s so)) = len s + 1" if "len s < Capacity s"
    using a that by (simp add: Storage_Add_def len_def length_update_new)
  from a show "fst (Storage_Add s so) = s" if "\<not> len s < Capacity s"
    using that by (simp add: Storage_Add_def)
qed

theorem occupancy_within_capacity_witness:
  "0 \<le> CoolerCap ex_cfg \<and> 0 \<le> HeaterCap ex_cfg \<and> 0 \<le> ShelfCap ex_cfg
   \<and> sys_ok ex_two_hot_on_shelf
   \<and> sys_ok (PlaceOrder 10 (ex_order ''r'' ''room'' 30) ex_two_hot_on_shelf)
   \<and> unit_ok (ex_unit ''Shelf-1'' 1 [ex_stored ''a'' ''hot'' 100 0])
   \<and> map_of (Orders (ex_unit ''Shelf-1'' 1 [ex_stored ''a'' ''hot'' 100 0])) (ID (Order (ex_stored ''a'' ''hot'' 7 3))) \<noteq> None
   \<and> snd (Storage_Add (ex_unit ''Shelf-1'' 1 [ex_stored ''a'' ''hot'' 100 0]) (ex_stored ''a'' ''hot'' 7 3))
   \<and> len (fst (Storage_Add (ex_unit ''Shelf-1'' 1 [ex_stored ''a'' ''hot'' 100 0]) (ex_stored ''a'' ''hot'' 7 3))) = 1
   \<and> map_of (Orders (ex_unit ''Shelf-1'' 1 [ex_stored ''a'' ''hot'' 100 0])) (ID (Order (ex_stored ''b'' ''hot'' 50 0))) = None
   \<and> \<not> snd (Storage_Add (ex_unit ''Shelf-1'' 1 [ex_stored ''a'' ''hot'' 100 0]) (ex_stored ''b'' ''hot'' 50 0))"
proof -
  have caps: "0 \<le> CoolerCap ex_cfg \<and> 0 \<le> HeaterCap ex_cfg \<and> 0 \<le> ShelfCap ex_cfg"
    by (simp add: ex_cfg_def)
  have u: "unit_ok (ex_unit ''Shelf-1'' 1 [ex_stored ''a'' ''hot'' 100 0])"
    by (simp add: ok_defs)
  have old: "map_of (Orders (ex_unit ''Shelf-1'' 1 [ex_stored ''a'' ''hot'' 100 0])) (ID (Order (ex_stored ''a'' ''hot'' 7 3))) \<noteq> None"
    by (simp add: ex_defs)
  have new: "map_of (Orders (ex_unit ''Shelf-1'' 1 [ex_stored ''a'' ''hot'' 100 0])) (ID (Order (ex_stored ''b'' ''hot'' 50 0))) = None"
    by (simp add: ex_defs)
  have l: "len (ex_unit ''Shelf-1'' 1 [ex_stored ''a'' ''hot'' 100 0]) = 1"
    "Capacity (ex_unit ''Shelf-1'' 1 [ex_stored ''a'' ''hot'' 100 0]) = 1"
    by (simp_all add: ex_defs len_def)
  note t1 = occupancy_within_capacity [where cfg = ex_cfg and fs = ex_two_hot_on_shelf and now = 10
      and order = "ex_order ''r'' ''room'' 30" and s = "ex_unit ''Shelf-1'' 1 [ex_stored ''a'' ''hot'' 100 0]"
      and so = "ex_stored ''a'' ''hot'' 7 3"
      and ops = "[Place 0 (ex_order ''x'' ''hot'' 100), Place 0 (ex_order ''a'' ''hot'' 100),
                  Place 0 (ex_order ''b'' ''hot'' 50), Pickup 5 ''x'']"]
  note t2 = occupancy_within_capacity [where s = "ex_unit ''Shelf-1'' 1 [ex_stored ''a'' ''hot'' 100 0]"
      and so = "ex_stored ''b'' ''hot'' 50 0"]
  from t1 caps have ok: "sys_ok ex_two_hot_on_shelf"
    by (simp add: ex_two_hot_on_shelf_def)
  from t1 ok have ok2: "sys_ok (PlaceOrder 10 (ex_order ''r'' ''room'' 30) ex_two_hot_on_shelf)"
    by simp
  from t1 old l have a1: "snd (Storage_Add (ex_unit ''Shelf-1'' 1 [ex_stored ''a'' ''hot'' 100 0]) (ex_stored ''a'' ''hot'' 7 3))"
    "len (fst (Storage_Add (ex_unit ''Shelf-1'' 1 [ex_stored ''a'' ''hot'' 100 0]) (ex_stored ''a'' ''hot'' 7 3))) = 1"
    by simp_all
  from t2 new l have a2: "\<not> snd (Storage_Add (ex_unit ''Shelf-1'' 1 [ex_stored ''a'' ''hot'' 100 0]) (ex_stored ''b'' ''hot'' 50 0))"
    by simp
  from caps ok ok2 u old a1 new a2 show ?thesis by simp
qed

text \<open>
  C6. Starting from the empty storage of any configuration, after every sequence of
  place, pickup, reallocation-tick, discard and shelf-move calls whose placed order ids are
  pairwise distinct, every order id occurs in at most one unit of the whole system. A call
  of \<open>atomicMoveOrder\<close> on a source unit and a destination group that hold every id once
  keeps the multiset of ids: the order is neither in two units nor in none afterwards.
\<close>

theorem order_ids_unique:
  "(distinct (placed_ids ops) \<longrightarrow> unique_ids (run (NewFulfillmentSystem cfg) ops))
   \<and> (distinct (keys src @ group_keys dst) \<longrightarrow>
        mset (keys (fst (snd (atomicMoveOrder now i src dst)))
              @ group_keys (snd (snd (atomicMoveOrder now i src dst))))
          = mset (keys src @ group_keys dst))"
proof (intro conjI impI)
  assume "distinct (placed_ids ops)"
  then show "unique_ids (run (NewFulfillmentSystem cfg) ops)"
    unfolding unique_ids_def by (intro run_unique) simp_all
next
  assume d: "distinct (keys src @ group_keys dst)"
  obtain m src' dst' where mv: "atomicMoveOrder now i src dst = (m, src', dst')"
    by (cases "atomicMoveOrder now i src dst") auto
  from atomicMoveOrder_keeps_ids [OF mv d] show
    "mset (keys (fst (snd (atomicMoveOrder now i src dst)))
              @ group_keys (snd (snd (atomicMoveOrder now i src dst))))
          = mset (keys src @ group_keys dst)"
    by (simp add: mv)
qed

theorem order_ids_unique_witness:
  "distinct (placed_ids [Place 0 (ex_order ''x'' ''hot'' 100), Place 0 (ex_order ''a'' ''hot'' 100),
                         Place 0 (ex_order ''b'' ''hot'' 50), Pickup 5 ''x''])
   \<and> unique_ids ex_two_hot_on_shelf
   \<and> all_keys ex_two_hot_on_shelf = [''a'', ''b'']
   \<and> distinct (keys (ex_unit ''Shelf-1'' 1 [ex_stored ''a'' ''hot'' 100 0]) @ group_keys [ex_unit ''Heater-1'' 1 []])
   \<and> mset (keys (fst (snd (atomicMoveOrder 10 ''a'' (ex_unit ''Shelf-1'' 1 [ex_stored ''a'' ''hot'' 100 0])
                                 [ex_unit ''Heater-1'' 1 []])))
           @ group_keys (snd (snd (atomicMoveOrder 10 ''a'' (ex_unit ''Shelf-1'' 1 [ex_stored ''a'' ''hot'' 100 0])
                                 [ex_unit ''Heater-1'' 1 []]))))
       = {#''a''#}"
proof -
  have d1: "distinct (placed_ids [Place 0 (ex_order ''x'' ''hot'' 100), Place 0 (ex_order ''a'' ''hot'' 100),
                         Place 0 (ex_order ''b'' ''hot'' 50), Pickup 5 ''x''])"
    by (simp add: ex_defs)
  have d2: "distinct (keys (ex_unit ''Shelf-1'' 1 [ex_stored ''a'' ''hot'' 100 0]) @ group_keys [ex_unit ''Heater-1'' 1 []])"
    by (simp add: ex_defs keys_def)
  have k: "all_keys ex_two_hot_on_shelf = [''a'', ''b'']"
    unfolding ex_two_hot_on_shelf_eq by (simp add: all_keys_def keys_def ex_defs)
  have k2: "mset (keys (ex_unit ''Shelf-1'' 1 [ex_stored ''a'' ''hot'' 100 0]) @ group_keys [ex_unit ''Heater-1'' 1 []])
      = {#''a''#}"
    by (simp add: ex_defs keys_def)
  note t = order_ids_unique [where cfg = ex_cfg and now = 10 and i = "''a''"
      and ops = "[Place 0 (ex_order ''x'' ''hot'' 100), Place 0 (ex_order ''a'' ''hot'' 100),
                  Place 0 (ex_order ''b'' ''hot'' 50), Pickup 5 ''x'']"
      and src = "ex_unit ''Shelf-1'' 1 [ex_stored ''a'' ''hot'' 100 0]" and dst = "[ex_unit ''Heater-1'' 1 []]"]
  from t d1 have u: "unique_ids ex_two_hot_on_shelf"
    by (simp add: ex_two_hot_on_shelf_def)
  from t d2 k2 have m: "mset (keys (fst (snd (atomicMoveOrder 10 ''a'' (ex_unit ''Shelf-1'' 1 [ex_stored ''a'' ''hot'' 100 0])
                                 [ex_unit ''Heater-1'' 1 []])))
           @ group_keys (snd (snd (atomicMoveOrder 10 ''a'' (ex_unit ''Shelf-1'' 1 [ex_stored ''a'' ''hot'' 100 0])
                                 [ex_unit ''Heater-1'' 1 []]))))
       = {#''a''#}"
    by (simp del: mset_append mset_map)
  from d1 u k d2 m show ?thesis by simp
qed

text \<open>
  C8. In a system configured with at least one shelf unit of capacity at least one, in
  every state a sequential run can reach, \<open>PlaceOrder\<close> always ends by storing the order and
  recording its place action: the log grows by move and discard actions only (those of the
  fallback), followed by exactly one place action for the order. The branch that drops the
  order is never taken.
\<close>

theorem PlaceOrder_always_places:
  assumes "1 \<le> NumShelves cfg" and "1 \<le> ShelfCap cfg"
    and "fs = run (NewFulfillmentSystem cfg) ops"
  shows "\<exists>mid. Actions (PlaceOrder now order fs) =
            Actions fs @ mid @ [\<lparr>Timestamp = now div 1000, OrderID = ID order, Action = ACTION_TYPE_PLACE\<rparr>]
          \<and> list_all (\<lambda>a. Action a = ACTION_TYPE_MOVE \<or> Action a = ACTION_TYPE_DISCARD) mid
          \<and> ID order \<in> set (all_keys (PlaceOrder now order fs))"
proof -
  from assms(2) have "group_ok (ShelfGroup (NewFulfillmentSystem cfg))"
    by (intro NewFulfillmentSystem_shelf_ok) simp
  then have ok: "group_ok (ShelfGroup fs)" unfolding assms(3) by (rule run_shelf_ok)
  from NewFulfillmentSystem_slot [OF assms(1,2)]
  have "\<exists>s \<in> set (ShelfGroup fs). 1 \<le> Capacity s"
    unfolding assms(3) by (rule slot_cong [OF run_Capacity])
  with ok show ?thesis by (rule PlaceOrder_placed)
qed

theorem PlaceOrder_always_places_witness:
  "1 \<le> NumShelves ex_cfg \<and> 1 \<le> ShelfCap ex_cfg
   \<and> Group_IsFull (ShelfGroup ex_two_hot_on_shelf)
   \<and> Actions (PlaceOrder 10 (ex_order ''r'' ''room'' 30) ex_two_hot_on_shelf) =
       Actions ex_two_hot_on_shelf @ [\<lparr>Timestamp = 0, OrderID = ''a'', Action = ''move''\<rparr>]
         @ [\<lparr>Timestamp = 0, OrderID = ''r'', Action = ''place''\<rparr>]
   \<and> ''r'' \<in> set (all_keys (PlaceOrder 10 (ex_order ''r'' ''room'' 30) ex_two_hot_on_shelf))"
proof -
  have caps: "1 \<le> NumShelves ex_cfg" "1 \<le> ShelfCap ex_cfg"
    by (simp_all add: ex_cfg_def)
  have full: "Group_IsFull (ShelfGroup ex_two_hot_on_shelf)"
    unfolding ex_two_hot_on_shelf_eq by (simp add: ex_defs Storage_IsFull_def len_def)
  have act: "Actions (PlaceOrder 10 (ex_order ''r'' ''room'' 30) ex_two_hot_on_shelf) =
       Actions ex_two_hot_on_shelf @ [\<lparr>Timestamp = 0, OrderID = ''a'', Action = ''move''\<rparr>]
         @ [\<lparr>Timestamp = 0, OrderID = ''r'', Action = ''place''\<rparr>]"
    unfolding ex_two_hot_on_shelf_eq by (simp add: eval_defs)
  from PlaceOrder_always_places [OF caps ex_two_hot_on_shelf_def, of 10 "ex_order ''r'' ''room'' 30"]
  have "''r'' \<in> set (all_keys (PlaceOrder 10 (ex_order ''r'' ''room'' 30) ex_two_hot_on_shelf))"
    by (auto simp: ex_defs)
  with caps full act show ?thesis by simp
qed

section \<open>Pickup and the reallocation tick (claims C9, C10)\<close>

text \<open>
  C9. \<open>PickupOrder\<close> removes the id from the heater group if a heater unit holds it; else from
  the cooler group if a cooler unit holds it; else from the shelf group if a shelf unit
  holds it. In each case the order leaves the first unit of that group that holds the id,
  the other groups are untouched (also when they hold the id too), and exactly one pickup
  action is appended. If no unit holds the id, the call returns the system as it was, log
  included, so picking up an absent id again and again changes nothing.
\<close>

theorem PickupOrder_priority_and_absent:
  "(orderID \<in> set (group_keys (HeaterGroup fs)) \<longrightarrow>
      (\<exists>pre s post so. HeaterGroup fs = pre @ s # post \<and> orderID \<notin> set (group_keys pre)
         \<and> map_of (Orders s) orderID = Some so
         \<and> PickupOrder now orderID fs =
             fs\<lparr>HeaterGroup := pre @ s\<lparr>Orders := AList.delete orderID (Orders s)\<rparr> # post,
                Actions := Actions fs @
                  [\<lparr>Timestamp = now div 1000, OrderID = ID (Order so), Action = ACTION_TYPE_PICKUP\<rparr>]\<rparr>))
   \<and> (orderID \<notin> set (group_keys (HeaterGroup fs)) \<and> orderID \<in> set (group_keys (CoolerGroup fs)) \<longrightarrow>
      (\<exists>pre s post so. CoolerGroup fs = pre @ s # post \<and> orderID \<notin> set (group_keys pre)
         \<and> map_of (Orders s) orderID = Some so
         \<and> PickupOrder now orderID fs =
             fs\<lparr>CoolerGroup := pre @ s\<lparr>Orders := AList.delete orderID (Orders s)\<rparr> # post,
                Actions := Actions fs @
                  [\<lparr>Timestamp = now div 1000, OrderID = ID (Order so), Action = ACTION_TYPE_PICKUP\<rparr>]\<rparr>))
   \<and> (orderID \<notin> set (group_keys (HeaterGroup fs)) \<and> orderID \<notin> set (group_keys (CoolerGroup fs))
        \<and> orderID \<in> set (group_keys (ShelfGroup fs)) \<longrightarrow>
      (\<exists>pre s post so. ShelfGroup fs = pre @ s # post \<and> orderID \<notin> set (group_keys pre)
         \<and> map_of (Orders s) orderID = Some so
         \<and> PickupOrder now orderID fs =
             fs\<lparr>ShelfGroup := pre @ s\<lparr>Orders := AList.delete orderID (Orders s)\<rparr> # post,
                Actions := Actions fs @
                  [\<lparr>Timestamp = now div 1000, OrderID = ID (Order so), Action = ACTION_TYPE_PICKUP\<rparr>]\<rparr>))
   \<and> (orderID \<notin> set (all_keys fs) \<longrightarrow>
        PickupOrder now orderID fs = fs \<and> PickupOrder now' orderID (PickupOrder now orderID fs) = fs)"
proof (intro conjI impI)
  assume "orderID \<in> set (group_keys (HeaterGroup fs))"
  from PickupOrder_heater [OF this, of now]
  show "\<exists>pre s post so. HeaterGroup fs = pre @ s # post \<and> orderID \<notin> set (group_keys pre)
         \<and> map_of (Orders s) orderID = Some so
         \<and> PickupOrder now orderID fs =
             fs\<lparr>HeaterGroup := pre @ s\<lparr>Orders := AList.delete orderID (Orders s)\<rparr> # post,
                Actions := Actions fs @
                  [\<lparr>Timestamp = now div 1000, OrderID = ID (Order so), Action = ACTION_TYPE_PICKUP\<rparr>]\<rparr>"
    by (simp add: logAction_def)
next
  assume "orderID \<notin> set (group_keys (HeaterGroup fs)) \<and> orderID \<in> set (group_keys (CoolerGroup fs))"
  then have a: "orderID \<notin> set (group_keys (HeaterGroup fs))" "orderID \<in> set (group_keys (CoolerGroup fs))"
    by simp_all
  from PickupOrder_cooler [OF a, of now]
  show "\<exists>pre s post so. CoolerGroup fs = pre @ s # post \<and> orderID \<notin> set (group_keys pre)
         \<and> map_of (Orders s) orderID = Some so
         \<and> PickupOrder now orderID fs =
             fs\<lparr>CoolerGroup := pre @ s\<lparr>Orders := AList.delete orderID (Orders s)\<rparr> # post,
                Actions := Actions fs @
                  [\<lparr>Timestamp = now div 1000, OrderID = ID (Order so), Action = ACTION_TYPE_PICKUP\<rparr>]\<rparr>"
    by (simp add: logAction_def)
next
  assume "orderID \<notin> set (group_keys (HeaterGroup fs)) \<and> orderID \<notin> set (group_keys (CoolerGroup fs))
        \<and> orderID \<in> set (group_keys (ShelfGroup fs))"
  then have a: "orderID \<notin> set (group_keys (HeaterGroup fs))" "orderID \<notin> set (group_keys (CoolerGroup fs))"
    "orderID \<in> set (group_keys (ShelfGroup fs))"
    by simp_all
  from PickupOrder_shelf [OF a, of now]
  show "\<exists>pre s post so. ShelfGroup fs = pre @ s # post \<and> orderID \<notin> set (group_keys pre)
         \<and> map_of (Orders s) orderID = Some so
         \<and> PickupOrder now orderID fs =
             fs\<lparr>ShelfGroup := pre @ s\<lparr>Orders := AList.delete orderID (Orders s)\<rparr> # post,
                Actions := Actions fs @
                  [\<lparr>Timestamp = now div 1000, OrderID = ID (Order so), Action = ACTION_TYPE_PICKUP\<rparr>]\<rparr>"
    by (simp add: logAction_def)
next
  assume a: "orderID \<notin> set (all_keys fs)"
  then show same: "PickupOrder now orderID fs = fs" by (rule PickupOrder_absent)
  from a show "PickupOrder now' orderID (PickupOrder now orderID fs) = fs"
    unfolding same by (rule PickupOrder_absent)
qed

theorem PickupOrder_priority_and_absent_witness:
  "''b'' \<notin> set (group_keys (HeaterGroup ex_two_hot_on_shelf))
   \<and> ''b'' \<notin> set (group_keys (CoolerGroup ex_two_hot_on_shelf))
   \<and> ''b'' \<in> set (group_keys (ShelfGroup ex_two_hot_on_shelf))
   \<and> Actions (PickupOrder 7000 ''b'' ex_two_hot_on_shelf)
       = Actions ex_two_hot_on_shelf @ [\<lparr>Timestamp = 7, OrderID = ''b'', Action = ''pickup''\<rparr>]
   \<and> map keys (ShelfGroup (PickupOrder 7000 ''b'' ex_two_hot_on_shelf)) = [[''a''], []]
   \<and> ''zz'' \<notin> set (all_keys ex_two_hot_on_shelf)
   \<and> PickupOrder 8 ''zz'' (PickupOrder 7 ''zz'' ex_two_hot_on_shelf) = ex_two_hot_on_shelf"
proof -
  have k: "group_keys (HeaterGroup ex_two_hot_on_shelf) = []" "group_keys (CoolerGroup ex_two_hot_on_shelf) = []"
    "group_keys (ShelfGroup ex_two_hot_on_shelf) = [''a'', ''b'']"
    unfolding ex_two_hot_on_shelf_eq by (simp_all add: keys_def ex_defs)
  then have absent: "''zz'' \<notin> set (all_keys ex_two_hot_on_shelf)"
    by (simp add: all_keys_def)
  have ev: "Actions (PickupOrder 7000 ''b'' ex_two_hot_on_shelf)
       = Actions ex_two_hot_on_shelf @ [\<lparr>Timestamp = 7, OrderID = ''b'', Action = ''pickup''\<rparr>]"
    "map keys (ShelfGroup (PickupOrder 7000 ''b'' ex_two_hot_on_shelf)) = [[''a''], []]"
    unfolding ex_two_hot_on_shelf_eq by (simp_all add: eval_defs keys_def)
  from PickupOrder_priority_and_absent [of "''zz''" ex_two_hot_on_shelf 7 8] absent
  have twice: "PickupOrder 8 ''zz'' (PickupOrder 7 ''zz'' ex_two_hot_on_shelf) = ex_two_hot_on_shelf"
    by blast
  from k absent ev show ?thesis by (simp add: twice)
qed



subsection \<open>What a successful move does\<close>




subsection \<open>The listed variants\<close>






section \<open>The discard path (claims C4, C7)\<close>




text \<open>
  C7 (the code departs from the claim). The claim: when a discard action is recorded, the
  discarded order's remaining freshness at that instant is at most that of every other
  order on the shelf. \<open>GetLeastFreshOrder\<close> does select an order of least remaining
  freshness, but the move attempt that \<open>discardOrderFromShelfGroup\<close> makes between the
  selection and the removal rewrites the freshness and the placement time of the selected
  order when the ideal group is full (the write before the search for room, as in C1).

  With the heater holding \<open>x\<close> and the shelf unit holding the hot order \<open>b\<close> (freshness 50) and
  the room order \<open>r\<close> (freshness 27), all placed at time 0, the hot order \<open>z\<close> is placed at time
  10. The failed move of \<open>PlaceOrder\<close> leaves \<open>b\<close> with freshness 30 and placement time 10, so
  \<open>b\<close> is selected (remaining 15 against 17 for \<open>r\<close>); the failed move of the discard then
  leaves \<open>b\<close> with freshness 50 and placement time 10. When \<open>b\<close> is removed and the discard
  recorded, its remaining freshness is 25, more than the 17 of \<open>r\<close>, which stays.
\<close>

theorem discard_after_failed_move_not_minimal:
  "ShelfGroup ex_hot_and_room_on_shelf
      = [ex_unit ''Shelf-1'' 2 [ex_stored ''b'' ''hot'' 50 0, ex_stored ''r'' ''room'' 27 0]]
   \<and> HeaterGroup ex_hot_and_room_on_shelf = [ex_unit ''Heater-1'' 1 [ex_stored ''x'' ''hot'' 100 0]]
   \<and> Actions (PlaceOrder 10 (ex_order ''z'' ''hot'' 100) ex_hot_and_room_on_shelf)
      = Actions ex_hot_and_room_on_shelf @
          [\<lparr>Timestamp = 0, OrderID = ''b'', Action = ''discard''\<rparr>,
           \<lparr>Timestamp = 0, OrderID = ''z'', Action = ''place''\<rparr>]
   \<and> ShelfGroup (PlaceOrder 10 (ex_order ''z'' ''hot'' 100) ex_hot_and_room_on_shelf)
      = [ex_unit ''Shelf-1'' 2 [ex_stored ''r'' ''room'' 27 0, ex_stored ''z'' ''hot'' 100 10]]
   \<and> GetLeastFreshOrder 10 (ShelfGroup (snd (tryMoveFromShelfGroup 10 ''hot'' ex_hot_and_room_on_shelf)))
      = Some \<lparr>Order = \<lparr>ID = ''b'', Order.Name = ''meal'', Temperature = ''hot'', Freshness = 30,
                         InitialFreshness = 50\<rparr>, PlacedAt = 10\<rparr>
   \<and> Group_Remove
        (ShelfGroup (snd (tryMoveFromShelfGroup 10 ''hot''
           (snd (tryMoveFromShelfGroup 10 ''hot'' ex_hot_and_room_on_shelf))))) ''b''
      = ([ex_unit ''Shelf-1'' 2 [ex_stored ''r'' ''room'' 27 0]], Some (ex_stored ''b'' ''hot'' 50 10))
   \<and> RemainingFreshness 10 (ex_stored ''b'' ''hot'' 50 10) = 25
   \<and> RemainingFreshness 10 (ex_stored ''r'' ''room'' 27 0) = 17"
  unfolding ex_hot_and_room_on_shelf_def
  by (simp add: eval_defs)

end
